theory Spec2Isabelle
  imports Main
begin

section \<open>Tokens, source ranges and diagnostics\<close>

text \<open>
  The type tags of tokens. \<open>parser.go\<close> names the tags below; \<open>TokenOther\<close> stands for
  every further member of the enumeration (operators, number literals, comments, ...),
  none of which the parser mentions.
\<close>

datatype TokenType =
    TokenOBrace | TokenCBrace
  | TokenOBrack | TokenCBrack
  | TokenOParen | TokenCParen
  | TokenOQuote | TokenCQuote
  | TokenOHeredoc | TokenCHeredoc
  | TokenEqual
  | TokenIdent
  | TokenQuotedLit
  | TokenStringLit
  | TokenTemplateInterp
  | TokenTemplateControl
  | TokenTemplateSeqEnd
  | TokenNewline
  | TokenEOF
  | TokenNil
  | TokenOther nat

text \<open>Go's \<open>int\<close> fields are modelled as \<open>int\<close>; no position reaches the 64-bit limit.\<close>

record Pos =
  Line :: int
  Column :: int
  Byte :: int

record Range =
  Filename :: string
  Start :: Pos
  End :: Pos

record Token =
  Type :: TokenType
  Bytes :: string
  Range :: Range

datatype DiagnosticSeverity = DiagError | DiagWarning

record Diagnostic =
  Severity :: DiagnosticSeverity
  Summary :: string
  Detail :: string
  Subject :: "Range option"
  Context :: "Range option"

type_synonym Diagnostics = "Diagnostic list"

text \<open>
  Modelled from the spec: \<open>zcl.Diagnostics.HasErrors\<close> (package \<open>zcl\<close> is not among the
  sources): a diagnostics list has errors when one of its members has severity error.
\<close>

definition HasErrors :: "Diagnostics \<Rightarrow> bool" where
  "HasErrors ds = list_ex (\<lambda>d. Severity d = DiagError) ds"

text \<open>
  Modelled from the spec: \<open>zcl.RangeBetween\<close> (package \<open>zcl\<close> is not among the sources),
  "the smallest range spanning both", positions compared by their byte offset.
\<close>

definition RangeBetween :: "Range \<Rightarrow> Range \<Rightarrow> Range" where
  "RangeBetween a b =
     \<lparr> Filename = Filename a,
       Start = (if Byte (Start a) \<le> Byte (Start b) then Start a else Start b),
       End = (if Byte (End b) \<le> Byte (End a) then End a else End b) \<rparr>"

text \<open>
  What the parser takes from outside the repository, as parameters: the grapheme cluster
  segmentation of \<open>textseg.ScanGraphemeClusters\<close> (driven by a \<open>bufio.Scanner\<close>), the
  \<open>%q\<close> verb of \<open>fmt.Sprintf\<close> on a string, and \<open>zcl.Range.String\<close>.
\<close>

record extern =
  ScanGraphemeClusters :: "string \<Rightarrow> string list"
  Sprintf_q :: "string \<Rightarrow> string"
  Range_String :: "Range \<Rightarrow> string"

text \<open>
  On ASCII bytes the segmentation makes every byte a cluster of its own, except a carriage
  return followed by a line feed, which form one cluster.
\<close>

fun ascii_clusters :: "string \<Rightarrow> string list" where
  "ascii_clusters [] = []"
| "ascii_clusters [c] = [[c]]"
| "ascii_clusters (c # d # cs) =
     (if c = CHR 0x0D \<and> d = CHR 0x0A then [c, d] # ascii_clusters cs
      else [c] # ascii_clusters (d # cs))"

text \<open>A panic of the Go code is an error value.\<close>

datatype error = Panic string

section \<open>The escape decoder\<close>

text \<open>
  The local variables \<open>ret\<close>, \<open>esc\<close>, \<open>newPos\<close> and \<open>diags\<close> of \<open>decodeStringLit\<close>'s loop;
  \<open>pos\<close> is \<open>newPos\<close> of the round before.
\<close>

record decoder =
  dec_ret :: string
  dec_esc :: string
  dec_newPos :: Pos
  dec_diags :: Diagnostics

definition advance :: "Pos \<Rightarrow> string \<Rightarrow> Pos" where
  "advance pos ch =
     (if (length ch = 1 \<and> ch ! 0 = CHR 0x0A) \<or> (length ch = 2 \<and> ch ! 1 = CHR 0x0A)
      then pos\<lparr> Line := Line pos + 1, Column := 0, Byte := Byte pos + int (length ch) \<rparr>
      else pos\<lparr> Column := Column pos + 1, Byte := Byte pos + int (length ch) \<rparr>)"

definition escape_detail :: "string \<Rightarrow> string" where
  "escape_detail ch =
     (if length ch = 1 \<and> (ch ! 0 = CHR ''$'' \<or> ch ! 0 = CHR ''!'')
      then ''The characters '' @ [CHR 0x22, CHR 0x5C] @ ch @ [CHR 0x22]
           @ '' do not form a recognized escape sequence. To escape a '' @ [CHR 0x22] @ ch
           @ ''{'' @ [CHR 0x22] @ '' template sequence, use '' @ [CHR 0x22] @ ch @ ch
           @ ''{'' @ [CHR 0x22] @ ''.''
      else ''The characters '' @ [CHR 0x22, CHR 0x5C] @ ch @ [CHR 0x22]
           @ '' do not form a recognized escape sequence.'')"

definition escape_diag :: "Token \<Rightarrow> Pos \<Rightarrow> string \<Rightarrow> Diagnostic" where
  "escape_diag tok pos ch =
     \<lparr> Severity = DiagError,
       Summary = ''Invalid escape sequence'',
       Detail = escape_detail ch,
       Subject = Some \<lparr> Filename = Filename (Range tok),
                        Start = \<lparr> Line = Line pos, Column = Column pos - 1, Byte = Byte pos - 1 \<rparr>,
                        End = \<lparr> Line = Line pos, Column = Column pos + 1,
                                Byte = Byte pos + int (length ch) \<rparr> \<rparr>,
       Context = None \<rparr>"

text \<open>
  The loop \<open>for sc.Scan()\<close> over the clusters of the token's bytes. It returns the local
  variables as they are when the scanner is exhausted.
\<close>

fun decodeStringLit_loop :: "bool \<Rightarrow> Token \<Rightarrow> string list \<Rightarrow> decoder \<Rightarrow> error + decoder" where
  "decodeStringLit_loop quoted tok [] s = Inr s"
| "decodeStringLit_loop quoted tok (ch # chs) s =
     (let pos = dec_newPos s;
          s = s\<lparr> dec_newPos := advance pos ch \<rparr>
      in if length (dec_esc s) > 0 then
           (if dec_esc s ! 0 = CHR 0x5C then
              (if length ch = 1 \<and> ch ! 0 = CHR ''n'' then
                 decodeStringLit_loop quoted tok chs (s\<lparr> dec_ret := dec_ret s @ [CHR 0x0A], dec_esc := [] \<rparr>)
               else if length ch = 1 \<and> ch ! 0 = CHR ''r'' then
                 decodeStringLit_loop quoted tok chs (s\<lparr> dec_ret := dec_ret s @ [CHR 0x0D], dec_esc := [] \<rparr>)
               else if length ch = 1 \<and> ch ! 0 = CHR ''t'' then
                 decodeStringLit_loop quoted tok chs (s\<lparr> dec_ret := dec_ret s @ [CHR 0x09], dec_esc := [] \<rparr>)
               else if length ch = 1 \<and> ch ! 0 = CHR 0x22 then
                 decodeStringLit_loop quoted tok chs (s\<lparr> dec_ret := dec_ret s @ [CHR 0x22], dec_esc := [] \<rparr>)
               else if length ch = 1 \<and> ch ! 0 = CHR 0x5C then
                 decodeStringLit_loop quoted tok chs (s\<lparr> dec_ret := dec_ret s @ [CHR 0x5C], dec_esc := [] \<rparr>)
               else
                 decodeStringLit_loop quoted tok chs
                   (s\<lparr> dec_diags := dec_diags s @ [escape_diag tok pos ch], dec_ret := dec_ret s @ ch, dec_esc := [] \<rparr>))
            else if dec_esc s ! 0 = CHR ''$'' \<or> dec_esc s ! 0 = CHR ''!'' then
              (if length (dec_esc s) = 1 then
                 (if length ch = 1 \<and> ch ! 0 = dec_esc s ! 0 then
                    decodeStringLit_loop quoted tok chs (s\<lparr> dec_esc := dec_esc s @ [ch ! 0] \<rparr>)
                  else
                    decodeStringLit_loop quoted tok chs (s\<lparr> dec_ret := dec_ret s @ dec_esc s @ ch, dec_esc := [] \<rparr>))
               else if length (dec_esc s) = 2 then
                 (if length ch = 1 \<and> ch ! 0 = CHR ''{'' then
                    decodeStringLit_loop quoted tok chs (s\<lparr> dec_ret := dec_ret s @ [dec_esc s ! 0] @ ch, dec_esc := [] \<rparr>)
                  else
                    decodeStringLit_loop quoted tok chs (s\<lparr> dec_ret := dec_ret s @ dec_esc s @ ch, dec_esc := [] \<rparr>))
               else Inl (Panic ''have invalid escape sequence >2 characters''))
            else decodeStringLit_loop quoted tok chs s)
         else
           (if length ch = 1 \<and> ch ! 0 = CHR 0x5C \<and> quoted then
              decodeStringLit_loop quoted tok chs (s\<lparr> dec_esc := dec_esc s @ [CHR 0x5C] \<rparr>)
            else if length ch = 1 \<and> ch ! 0 = CHR ''$'' then
              decodeStringLit_loop quoted tok chs (s\<lparr> dec_esc := dec_esc s @ [CHR ''$''] \<rparr>)
            else if length ch = 1 \<and> ch ! 0 = CHR ''!'' then
              decodeStringLit_loop quoted tok chs (s\<lparr> dec_esc := dec_esc s @ [CHR ''!''] \<rparr>)
            else
              decodeStringLit_loop quoted tok chs (s\<lparr> dec_ret := dec_ret s @ ch \<rparr>)))"

definition decodeStringLit_run :: "extern \<Rightarrow> bool \<Rightarrow> Token \<Rightarrow> error + decoder" where
  "decodeStringLit_run x quoted tok =
     decodeStringLit_loop quoted tok (ScanGraphemeClusters x (Bytes tok))
       \<lparr> dec_ret = [], dec_esc = [], dec_newPos = Start (Range tok), dec_diags = [] \<rparr>"

definition decodeStringLit :: "extern \<Rightarrow> Token \<Rightarrow> error + (string \<times> Diagnostics)" where
  "decodeStringLit x tok =
     (if Type tok = TokenQuotedLit \<or> Type tok = TokenStringLit then
        (case decodeStringLit_run x (Type tok = TokenQuotedLit) tok of
           Inl e \<Rightarrow> Inl e
         | Inr s \<Rightarrow> Inr (dec_ret s, dec_diags s))
      else Inl (Panic ''decodeQuotedLit can only be used with TokenStringLit and TokenQuotedLit tokens''))"

section \<open>The token source\<close>

text \<open>
  Modelled from the spec: the peeker (\<open>peeker.go\<close> is not among the sources), "a lookahead
  stream yielding typed tokens", over "a finite, ordered token sequence (plus end-of-file
  sentinel)". \<open>Unread\<close> holds the tokens not yet consumed; once they are exhausted every
  read yields the end-of-file sentinel again. \<open>LastRead\<close> is the range of the most recently
  consumed token; before the first read \<open>PrevRange\<close> answers with the range of the next
  token.
\<close>

record peeker =
  Unread :: "Token list"
  LastRead :: "Range option"
  EOFRange :: Range

text \<open>The parser embeds the peeker and adds its recovery flag.\<close>

record parser = peeker +
  recovery :: bool

definition Peek :: "parser \<Rightarrow> Token" where
  "Peek p = (case Unread p of
               [] \<Rightarrow> \<lparr> Type = TokenEOF, Bytes = [], Range = EOFRange p \<rparr>
             | t # ts \<Rightarrow> t)"

definition Read :: "parser \<Rightarrow> Token \<times> parser" where
  "Read p = (Peek p, p\<lparr> Unread := tl (Unread p), LastRead := Some (Range (Peek p)) \<rparr>)"

definition NextRange :: "parser \<Rightarrow> Range" where
  "NextRange p = Range (Peek p)"

definition PrevRange :: "parser \<Rightarrow> Range" where
  "PrevRange p = (case LastRead p of None \<Rightarrow> NextRange p | Some r \<Rightarrow> r)"

section \<open>Error recovery\<close>

fun oppositeBracket :: "TokenType \<Rightarrow> TokenType" where
  "oppositeBracket TokenOBrace = TokenCBrace"
| "oppositeBracket TokenOBrack = TokenCBrack"
| "oppositeBracket TokenOParen = TokenCParen"
| "oppositeBracket TokenOQuote = TokenCQuote"
| "oppositeBracket TokenOHeredoc = TokenCHeredoc"
| "oppositeBracket TokenCBrace = TokenOBrace"
| "oppositeBracket TokenCBrack = TokenOBrack"
| "oppositeBracket TokenCParen = TokenOParen"
| "oppositeBracket TokenCQuote = TokenOQuote"
| "oppositeBracket TokenCHeredoc = TokenOHeredoc"
| "oppositeBracket TokenTemplateControl = TokenTemplateSeqEnd"
| "oppositeBracket TokenTemplateInterp = TokenTemplateSeqEnd"
| "oppositeBracket TokenTemplateSeqEnd = TokenTemplateInterp"
| "oppositeBracket _ = TokenNil"

lemma Read_Unread_length:
  "length (Unread (snd (Read p))) \<le> length (Unread p)"
  by (simp add: Read_def)

lemma Read_not_EOF_length:
  "Type (fst (Read p)) \<noteq> TokenEOF \<Longrightarrow> length (Unread (snd (Read p))) < length (Unread p)"
  by (cases "Unread p") (simp_all add: Read_def Peek_def)

lemma oppositeBracket_not_EOF: "oppositeBracket ty \<noteq> TokenEOF"
  by (cases ty) simp_all

text \<open>
  The loop of \<open>recover\<close>, with \<open>start\<close> the bracket opposite \<open>end\<close>. The counter
  \<open>nest\<close> is a Go \<open>int\<close> that only ever holds values from 0 upwards here.
\<close>

function recover_loop :: "TokenType \<Rightarrow> nat \<Rightarrow> parser \<Rightarrow> parser" where
  "recover_loop end nest p =
     (let start = oppositeBracket end;
          tok = fst (Read p);
          p' = snd (Read p);
          ty = (if end = TokenTemplateSeqEnd \<and> Type tok = TokenTemplateControl
                then TokenTemplateInterp else Type tok)
      in if ty = start then recover_loop end (nest + 1) p'
         else if ty = end then
           (if nest < 1 then p' else recover_loop end (nest - 1) p')
         else if ty = TokenEOF then p'
         else recover_loop end nest p')"
  by pat_completeness auto

termination
proof (relation "measure (\<lambda>(e, nest, p). 2 * length (Unread p) + nest)", goal_cases)
  case 1
  show ?case by simp
next
  case (2 e nest p start tok q ty)
  have "Type (fst (Read p)) \<noteq> TokenEOF"
  proof
    assume eof: "Type (fst (Read p)) = TokenEOF"
    with 2 have "ty = TokenEOF" by simp
    with 2 oppositeBracket_not_EOF [of e] show False by simp
  qed
  from Read_not_EOF_length [OF this] 2 show ?case by simp
next
  case (3 e nest p start tok q ty)
  from Read_Unread_length [of p] 3 show ?case by simp
next
  case (4 e nest p start tok q ty)
  have "Type (fst (Read p)) \<noteq> TokenEOF"
  proof
    assume eof: "Type (fst (Read p)) = TokenEOF"
    with 4 have "ty = TokenEOF" by simp
    with 4 show False by simp
  qed
  from Read_not_EOF_length [OF this] 4 show ?case by simp
qed

definition recover :: "TokenType \<Rightarrow> parser \<Rightarrow> parser" where
  "recover end p = recover_loop end 0 (p\<lparr> recovery := True \<rparr>)"

declare recover_loop.simps [simp del]

lemma recover_loop_length:
  "length (Unread (recover_loop e nest p)) \<le> length (Unread p)"
proof (induction e nest p rule: recover_loop.induct)
  case (1 e nest p)
  define ty where "ty = (if e = TokenTemplateSeqEnd \<and> Type (fst (Read p)) = TokenTemplateControl
                then TokenTemplateInterp else Type (fst (Read p)))"
  have step: "length (Unread (snd (Read p))) \<le> length (Unread p)"
    by (rule Read_Unread_length)
  have unf: "recover_loop e nest p =
      (if ty = oppositeBracket e then recover_loop e (nest + 1) (snd (Read p))
       else if ty = e then (if nest < 1 then snd (Read p) else recover_loop e (nest - 1) (snd (Read p)))
       else if ty = TokenEOF then snd (Read p)
       else recover_loop e nest (snd (Read p)))"
    by (subst recover_loop.simps) (simp only: Let_def ty_def)
  have a: "ty = oppositeBracket e \<Longrightarrow>
      length (Unread (recover_loop e (nest + 1) (snd (Read p)))) \<le> length (Unread (snd (Read p)))"
    using "1.IH"(1) [OF refl refl refl refl] by (simp add: ty_def)
  have b: "ty \<noteq> oppositeBracket e \<Longrightarrow> ty = e \<Longrightarrow> \<not> nest < 1 \<Longrightarrow>
      length (Unread (recover_loop e (nest - 1) (snd (Read p)))) \<le> length (Unread (snd (Read p)))"
    using "1.IH"(2) [OF refl refl refl refl] by (simp add: ty_def)
  have c: "ty \<noteq> oppositeBracket e \<Longrightarrow> ty \<noteq> e \<Longrightarrow> ty \<noteq> TokenEOF \<Longrightarrow>
      length (Unread (recover_loop e nest (snd (Read p)))) \<le> length (Unread (snd (Read p)))"
    using "1.IH"(3) [OF refl refl refl refl] by (simp add: ty_def)
  show ?case
    unfolding unf using a b c step by (auto intro: order_trans)
qed

lemma recover_length: "length (Unread (recover e p)) \<le> length (Unread p)"
  using recover_loop_length [of e 0 "p\<lparr> recovery := True \<rparr>"] by (simp add: recover_def)

function pop_to :: "(TokenType \<Rightarrow> bool) \<Rightarrow> TokenType list \<Rightarrow> TokenType list" where
  "pop_to wanted open =
     (if length open > 0 \<and> \<not> wanted (open ! (length open - 1))
      then pop_to wanted (take (length open - 1) open)
      else open)"
  by pat_completeness auto

termination
  by (relation "measure (\<lambda>(wanted, open). length open)") auto

declare pop_to.simps [simp del]

function recoverAfterBodyItem_loop :: "TokenType list \<Rightarrow> parser \<Rightarrow> parser" where
  "recoverAfterBodyItem_loop open p =
     (let tok = fst (Read p);
          p' = snd (Read p)
      in if Type tok = TokenNewline then
           (if length open = 0 then p' else recoverAfterBodyItem_loop open p')
         else if Type tok = TokenEOF then p'
         else if Type tok = TokenOBrace \<or> Type tok = TokenOBrack \<or> Type tok = TokenOParen
                 \<or> Type tok = TokenOQuote \<or> Type tok = TokenOHeredoc
                 \<or> Type tok = TokenTemplateInterp \<or> Type tok = TokenTemplateControl then
           recoverAfterBodyItem_loop (open @ [Type tok]) p'
         else if Type tok = TokenCBrace \<or> Type tok = TokenCBrack \<or> Type tok = TokenCParen
                 \<or> Type tok = TokenCQuote \<or> Type tok = TokenCHeredoc then
           (let opener = oppositeBracket (Type tok);
                open = pop_to (\<lambda>t. t = opener) open;
                open = (if length open > 0 then take (length open - 1) open else open)
            in recoverAfterBodyItem_loop open p')
         else if Type tok = TokenTemplateSeqEnd then
           (let open = pop_to (\<lambda>t. t = TokenTemplateInterp \<or> t = TokenTemplateControl) open;
                open = (if length open > 0 then take (length open - 1) open else open)
            in recoverAfterBodyItem_loop open p')
         else recoverAfterBodyItem_loop open p')"
  by pat_completeness auto

termination
proof (relation "measure (\<lambda>(open, p). length (Unread p))", goal_cases)
  case 1
  show ?case by simp
next
  case (2 opn p tok q)
  then have "Type (fst (Read p)) \<noteq> TokenEOF" by simp
  from Read_not_EOF_length [OF this] 2 show ?case by simp
next
  case (3 opn p tok q)
  then have "Type (fst (Read p)) \<noteq> TokenEOF" by simp
  from Read_not_EOF_length [OF this] 3 show ?case by simp
next
  case (4 opn p tok q)
  then have "Type (fst (Read p)) \<noteq> TokenEOF" by simp
  from Read_not_EOF_length [OF this] 4 show ?case by simp
next
  case (5 opn p tok q)
  then have "Type (fst (Read p)) \<noteq> TokenEOF" by simp
  from Read_not_EOF_length [OF this] 5 show ?case by simp
next
  case (6 opn p tok q)
  then have "Type (fst (Read p)) \<noteq> TokenEOF" by simp
  from Read_not_EOF_length [OF this] 6 show ?case by simp
qed

declare recoverAfterBodyItem_loop.simps [simp del]

definition recoverAfterBodyItem :: "parser \<Rightarrow> parser" where
  "recoverAfterBodyItem p = recoverAfterBodyItem_loop [] (p\<lparr> recovery := True \<rparr>)"

section \<open>Quoted string literals\<close>

text \<open>The zero value of a Go \<open>Token\<close>; only its range is ever read.\<close>

definition zeroPos :: Pos where
  "zeroPos = \<lparr> Line = 0, Column = 0, Byte = 0 \<rparr>"

definition zeroRange :: Range where
  "zeroRange = \<lparr> Filename = [], Start = zeroPos, End = zeroPos \<rparr>"

definition zeroToken :: Token where
  "zeroToken = \<lparr> Type = TokenNil, Bytes = [], Range = zeroRange \<rparr>"

definition template_diag :: "extern \<Rightarrow> Token \<Rightarrow> Token \<Rightarrow> Diagnostic" where
  "template_diag x oQuote tok =
     (let which = (if Type tok = TokenTemplateControl then ''!'' else ''$'')
      in \<lparr> Severity = DiagError,
           Summary = ''Invalid string literal'',
           Detail = ''Template sequences are not allowed in this string. To include a literal ''
                    @ Sprintf_q x which @ '', double it (as '' @ [CHR 0x22] @ which @ which
                    @ [CHR 0x22] @ '') to escape it.'',
           Subject = Some (Range tok),
           Context = Some (RangeBetween (Range oQuote) (Range tok)) \<rparr>)"

function parseQuotedStringLiteral_loop ::
  "extern \<Rightarrow> Token \<Rightarrow> string \<Rightarrow> Diagnostics \<Rightarrow> parser
     \<Rightarrow> error + (string \<times> Diagnostics \<times> Token \<times> parser)" where
  "parseQuotedStringLiteral_loop x oQuote ret diags p =
     (let tok = fst (Read p);
          p' = snd (Read p)
      in if Type tok = TokenCQuote then Inr (ret, diags, tok, p')
         else if Type tok = TokenQuotedLit then
           (case decodeStringLit x tok of
              Inl e \<Rightarrow> Inl e
            | Inr (s, sDiags) \<Rightarrow>
                parseQuotedStringLiteral_loop x oQuote (ret @ s) (diags @ sDiags) p')
         else if Type tok = TokenTemplateControl \<or> Type tok = TokenTemplateInterp then
           parseQuotedStringLiteral_loop x oQuote ret (diags @ [template_diag x oQuote tok])
             (recover TokenTemplateSeqEnd p')
         else if Type tok = TokenEOF then
           Inr (ret,
                diags @ [\<lparr> Severity = DiagError,
                           Summary = ''Unterminated string literal'',
                           Detail = ''Unable to find the closing quote mark before the end of the file.'',
                           Subject = Some (Range tok),
                           Context = Some (RangeBetween (Range oQuote) (Range tok)) \<rparr>],
                zeroToken, p')
         else
           Inr (ret,
                diags @ [\<lparr> Severity = DiagError,
                           Summary = ''Invalid string literal'',
                           Detail = ''This item is not valid in a string literal.'',
                           Subject = Some (Range tok),
                           Context = Some (RangeBetween (Range oQuote) (Range tok)) \<rparr>],
                zeroToken, recover TokenOQuote p'))"
  by pat_completeness auto

termination
proof (relation "measure (\<lambda>(x, oQuote, ret, diags, p). length (Unread p))", goal_cases)
  case 1
  show ?case by simp
next
  case (2 x oQuote ret diags p tok q)
  then have "Type (fst (Read p)) \<noteq> TokenEOF" by simp
  from Read_not_EOF_length [OF this] 2 show ?case by simp
next
  case (3 x oQuote ret diags p tok q)
  then have "Type (fst (Read p)) \<noteq> TokenEOF" by auto
  from Read_not_EOF_length [OF this] 3 recover_length [of TokenTemplateSeqEnd q]
  show ?case by simp
qed

declare parseQuotedStringLiteral_loop.simps [simp del]

definition parseQuotedStringLiteral ::
  "extern \<Rightarrow> parser \<Rightarrow> error + (string \<times> Range \<times> Diagnostics \<times> parser)" where
  "parseQuotedStringLiteral x p =
     (let oQuote = fst (Read p);
          p = snd (Read p)
      in if Type oQuote \<noteq> TokenOQuote then
           Inr ([], Range oQuote,
                [\<lparr> Severity = DiagError,
                   Summary = ''Invalid string literal'',
                   Detail = ''A quoted string is required here.'',
                   Subject = Some (Range oQuote),
                   Context = None \<rparr>],
                p)
         else
           (case parseQuotedStringLiteral_loop x oQuote [] [] p of
              Inl e \<Rightarrow> Inl e
            | Inr (ret, diags, cQuote, p') \<Rightarrow>
                Inr (ret, RangeBetween (Range oQuote) (Range cQuote), diags, p')))"

section \<open>The syntax tree\<close>

text \<open>
  The values of the embedded value system (\<open>cty.Value\<close>) and variable traversals
  (\<open>zcl.Traversal\<close>) come from outside the repository and stay abstract.
\<close>

typedecl Value

typedecl Traversal

datatype Expression =
    LiteralValueExpr Value Range
  | ScopeTraversalExpr Traversal Range
  | FunctionCallExpr string "Expression list" Range Range Range

text \<open>
  Modelled from the spec: \<open>Attribute\<close>, \<open>Block\<close> and \<open>Body\<close> (\<open>structure.go\<close> is not among
  the sources), with the fields the parser fills in. A \<open>Body\<close> pointer that is \<open>nil\<close> is
  \<open>None\<close>. The attribute map of a body is a map from names to attributes.
\<close>

record Attribute =
  Name :: string
  Expr :: Expression
  AttrSrcRange :: Range
  NameRange :: Range

datatype Block =
  MkBlock (BlockType: string) (Labels: "string list") (Body: "Body option")
    (TypeRange: Range) (LabelRanges: "Range list")
    (OpenBraceRange: Range) (CloseBraceRange: Range)
and Body =
  MkBody (Attributes: "string \<Rightarrow> Attribute option") (Blocks: "Block list")
    (SrcRange: Range) (EndRange: Range)

text \<open>A \<open>Node\<close> returned by the item parsers is a block or an attribute; \<open>nil\<close> is \<open>None\<close>.\<close>

datatype Node = NodeBlock Block | NodeAttribute Attribute

section \<open>The body and block parser\<close>

lemma parseQuotedStringLiteral_loop_length:
  "parseQuotedStringLiteral_loop x oQuote r ds p = Inr (r', ds', cq, p')
     \<Longrightarrow> length (Unread p') \<le> length (Unread p)"
proof (induction x oQuote r ds p rule: parseQuotedStringLiteral_loop.induct)
  case (1 x oQuote r ds p)
  have step: "length (Unread (snd (Read p))) \<le> length (Unread p)"
    by (rule Read_Unread_length)
  have rec1: "length (Unread (recover TokenTemplateSeqEnd (snd (Read p)))) \<le> length (Unread p)"
    using recover_length [of TokenTemplateSeqEnd "snd (Read p)"] step by simp
  have rec2: "length (Unread (recover TokenOQuote (snd (Read p)))) \<le> length (Unread p)"
    using recover_length [of TokenOQuote "snd (Read p)"] step by simp
  from "1.prems" show ?case
    apply (subst (asm) parseQuotedStringLiteral_loop.simps)
    using "1.IH" step rec1 rec2
    apply (auto simp: Let_def split: if_splits sum.splits prod.splits)
      apply (meson order_trans)+
    done
qed

lemma parseQuotedStringLiteral_length:
  assumes "parseQuotedStringLiteral x p = Inr (label, rng, ds, p')"
    and "Type (Peek p) = TokenOQuote"
  shows "length (Unread p') < length (Unread p)"
proof -
  have fst: "fst (Read p) = Peek p" by (simp add: Read_def)
  have "Type (fst (Read p)) \<noteq> TokenEOF" using assms(2) fst by simp
  from Read_not_EOF_length [OF this]
  have lt: "length (Unread (snd (Read p))) < length (Unread p)" .
  from assms fst obtain r cq where
    "parseQuotedStringLiteral_loop x (fst (Read p)) [] [] (snd (Read p)) = Inr (r, ds, cq, p')"
    by (auto simp: parseQuotedStringLiteral_def Let_def split: sum.splits prod.splits)
  from parseQuotedStringLiteral_loop_length [OF this] lt show ?thesis by simp
qed

text \<open>
  The label loop of \<open>finishParsingBodyBlock\<close> ends in one of two ways: the function returns
  a partial block from inside the loop, or the loop is left at the opening brace.
\<close>

datatype header =
    HeaderReturn Block Diagnostics parser
  | HeaderBreak "string list" "Range list" Diagnostics Token parser

definition header_diags :: "Token \<Rightarrow> Token \<Rightarrow> bool \<Rightarrow> Diagnostics" where
  "header_diags ident tok rec =
     (if Type tok = TokenEqual then
        [\<lparr> Severity = DiagError,
           Summary = ''Invalid block definition'',
           Detail = ''The equals sign '' @ [CHR 0x22] @ ''='' @ [CHR 0x22]
                    @ '' indicates an attribute definition, and must not be used when defining a block.'',
           Subject = Some (Range tok),
           Context = Some (RangeBetween (Range ident) (Range tok)) \<rparr>]
      else if Type tok = TokenNewline then
        [\<lparr> Severity = DiagError,
           Summary = ''Invalid block definition'',
           Detail = ''A block definition must have block content delimited by '' @ [CHR 0x22]
                    @ ''{'' @ [CHR 0x22] @ '' and '' @ [CHR 0x22] @ ''}'' @ [CHR 0x22]
                    @ '', starting on the same line as the block header.'',
           Subject = Some (Range tok),
           Context = Some (RangeBetween (Range ident) (Range tok)) \<rparr>]
      else if \<not> rec then
        [\<lparr> Severity = DiagError,
           Summary = ''Invalid block definition'',
           Detail = ''Either a quoted string block label or an opening brace ('' @ [CHR 0x22]
                    @ ''{'' @ [CHR 0x22] @ '') is expected here.'',
           Subject = Some (Range tok),
           Context = Some (RangeBetween (Range ident) (Range tok)) \<rparr>]
      else [])"

function finishParsingBodyBlock_labels ::
  "extern \<Rightarrow> Token \<Rightarrow> string list \<Rightarrow> Range list \<Rightarrow> Diagnostics \<Rightarrow> parser \<Rightarrow> error + header" where
  "finishParsingBodyBlock_labels x ident labels labelRanges diags p =
     (let tok = Peek p
      in if Type tok = TokenOBrace then
           Inr (HeaderBreak labels labelRanges diags (fst (Read p)) (snd (Read p)))
         else if Type tok = TokenOQuote then
           (case parseQuotedStringLiteral x p of
              Inl e \<Rightarrow> Inl e
            | Inr (label, labelRange, labelDiags, p') \<Rightarrow>
                (let diags = diags @ labelDiags;
                     labels = labels @ [label];
                     labelRanges = labelRanges @ [labelRange]
                 in if HasErrors labelDiags then
                      Inr (HeaderReturn
                             (MkBlock (Bytes ident) labels None (Range ident) labelRanges
                                (Range ident) (Range ident))
                             diags (recoverAfterBodyItem p'))
                    else finishParsingBodyBlock_labels x ident labels labelRanges diags p'))
         else
           Inr (HeaderReturn
                  (MkBlock (Bytes ident) labels None (Range ident) labelRanges
                     (Range ident) (Range ident))
                  (diags @ header_diags ident tok (recovery p))
                  (recoverAfterBodyItem p)))"
  by pat_completeness auto

termination
proof (relation "measure (\<lambda>(x, ident, labels, labelRanges, diags, p). length (Unread p))", goal_cases)
  case 1
  show ?case by simp
next
  case (2 x ident labels labelRanges diags p tok res label rest labelRange rest' labelDiags q)
  then have "parseQuotedStringLiteral x p = Inr (label, labelRange, labelDiags, q)"
    and "Type (Peek p) = TokenOQuote"
    by simp_all
  from parseQuotedStringLiteral_length [OF this] show ?case by simp
qed

declare finishParsingBodyBlock_labels.simps [simp del]

text \<open>The type switch on the item that \<open>ParseBodyItem\<close> returned, in \<open>ParseBody\<close>'s loop.\<close>

definition ParseBody_item ::
  "extern \<Rightarrow> Node option \<Rightarrow> (string \<Rightarrow> Attribute option) \<Rightarrow> Block list \<Rightarrow> Diagnostics
     \<Rightarrow> (string \<Rightarrow> Attribute option) \<times> Block list \<times> Diagnostics" where
  "ParseBody_item x item attrs blocks diags =
     (case item of
        Some (NodeBlock titem) \<Rightarrow> (attrs, blocks @ [titem], diags)
      | Some (NodeAttribute titem) \<Rightarrow>
          (case attrs (Name titem) of
             Some existing \<Rightarrow>
               (attrs, blocks,
                diags @ [\<lparr> Severity = DiagError,
                           Summary = ''Attribute redefined'',
                           Detail = ''The attribute '' @ Sprintf_q x (Name titem)
                                    @ '' was already defined at ''
                                    @ Range_String x (NameRange existing)
                                    @ ''. Each attribute may be defined only once.'',
                           Subject = Some (NameRange titem),
                           Context = None \<rparr>])
           | None \<Rightarrow> (attrs(Name titem \<mapsto> titem), blocks, diags))
      | None \<Rightarrow> (attrs, blocks, diags))"

definition bad_token_diags :: "Token \<Rightarrow> bool \<Rightarrow> Diagnostics" where
  "bad_token_diags bad rec =
     (if \<not> rec then
        (if Type bad = TokenOQuote then
           [\<lparr> Severity = DiagError,
              Summary = ''Invalid attribute name'',
              Detail = ''Attribute names must not be quoted.'',
              Subject = Some (Range bad),
              Context = None \<rparr>]
         else
           [\<lparr> Severity = DiagError,
              Summary = ''Attribute or block definition required'',
              Detail = ''An attribute or block definition is required here.'',
              Subject = Some (Range bad),
              Context = None \<rparr>])
      else [])"

definition item_required_diag :: "Token \<Rightarrow> Diagnostic" where
  "item_required_diag ident =
     \<lparr> Severity = DiagError,
       Summary = ''Attribute or block definition required'',
       Detail = ''An attribute or block definition is required here.'',
       Subject = Some (Range ident),
       Context = None \<rparr>"

definition equals_required_diag :: "Token \<Rightarrow> Diagnostic" where
  "equals_required_diag ident =
     \<lparr> Severity = DiagError,
       Summary = ''Attribute or block definition required'',
       Detail = ''An attribute or block definition is required here. To define an attribute, use the equals sign ''
                @ [CHR 0x22] @ ''='' @ [CHR 0x22] @ '' to introduce the attribute value.'',
       Subject = Some (Range ident),
       Context = None \<rparr>"

definition finishParsingBodyAttribute ::
  "Token \<Rightarrow> parser \<Rightarrow> error + (Node option \<times> Diagnostics \<times> parser)" where
  "finishParsingBodyAttribute ident p = Inl (Panic ''attribute parsing not yet implemented'')"

text \<open>
  The mutually recursive parsers. \<open>fuel\<close> bounds the rounds of \<open>ParseBody\<close>'s loop, so that
  the definition is total; \<open>None\<close> means the fuel ran out, which never happens with more
  fuel than unread tokens.
\<close>

function ParseBody_loop ::
    "extern \<Rightarrow> nat \<Rightarrow> TokenType \<Rightarrow> (string \<Rightarrow> Attribute option) \<Rightarrow> Block list \<Rightarrow> Diagnostics
       \<Rightarrow> parser
       \<Rightarrow> (error + ((string \<Rightarrow> Attribute option) \<times> Block list \<times> Diagnostics \<times> Range \<times> parser)) option"
  and ParseBody ::
    "extern \<Rightarrow> nat \<Rightarrow> TokenType \<Rightarrow> parser \<Rightarrow> (error + (Body \<times> Diagnostics \<times> parser)) option"
  and ParseBodyItem ::
    "extern \<Rightarrow> nat \<Rightarrow> parser \<Rightarrow> (error + (Node option \<times> Diagnostics \<times> parser)) option"
  and finishParsingBodyBlock ::
    "extern \<Rightarrow> nat \<Rightarrow> Token \<Rightarrow> parser \<Rightarrow> (error + (Node option \<times> Diagnostics \<times> parser)) option"
where
  "ParseBody_loop x 0 end attrs blocks diags p = None"
| "ParseBody_loop x (Suc fuel) end attrs blocks diags p =
     (let next = Peek p
      in if Type next = end then
           Some (Inr (attrs, blocks, diags, NextRange p, snd (Read p)))
         else if Type next = TokenNewline then
           ParseBody_loop x fuel end attrs blocks diags (snd (Read p))
         else if Type next = TokenIdent then
           (case ParseBodyItem x fuel p of
              None \<Rightarrow> None
            | Some (Inl e) \<Rightarrow> Some (Inl e)
            | Some (Inr (item, itemDiags, p')) \<Rightarrow>
                (case ParseBody_item x item attrs blocks (diags @ itemDiags) of
                   (attrs, blocks, diags) \<Rightarrow>
                     ParseBody_loop x fuel end attrs blocks diags p'))
         else
           (let bad = fst (Read p);
                p = snd (Read p);
                diags = diags @ bad_token_diags bad (recovery p);
                endRange = PrevRange p
            in Some (Inr (attrs, blocks, diags, endRange, recover end p))))"
| "ParseBody x fuel end p =
     (let startRange = PrevRange p
      in case ParseBody_loop x fuel end Map.empty [] [] p of
           None \<Rightarrow> None
         | Some (Inl e) \<Rightarrow> Some (Inl e)
         | Some (Inr (attrs, blocks, diags, endRange, p')) \<Rightarrow>
             Some (Inr (MkBody attrs blocks (RangeBetween startRange endRange)
                          \<lparr> Filename = Filename endRange, Start = End endRange, End = End endRange \<rparr>,
                        diags, p')))"
| "ParseBodyItem x fuel p =
     (let ident = fst (Read p);
          p = snd (Read p)
      in if Type ident \<noteq> TokenIdent then
           Some (Inr (None, [item_required_diag ident], recoverAfterBodyItem p))
         else
           (let next = Peek p
            in if Type next = TokenEqual then Some (finishParsingBodyAttribute ident p)
               else if Type next = TokenOQuote \<or> Type next = TokenOBrace then
                 finishParsingBodyBlock x fuel ident p
               else
                 Some (Inr (None, [equals_required_diag ident], recoverAfterBodyItem p))))"
| "finishParsingBodyBlock x fuel ident p =
     (case finishParsingBodyBlock_labels x ident [] [] [] p of
        Inl e \<Rightarrow> Some (Inl e)
      | Inr (HeaderReturn block diags p') \<Rightarrow> Some (Inr (Some (NodeBlock block), diags, p'))
      | Inr (HeaderBreak labels labelRanges diags oBrace p') \<Rightarrow>
          (case ParseBody x fuel TokenCBrace p' of
             None \<Rightarrow> None
           | Some (Inl e) \<Rightarrow> Some (Inl e)
           | Some (Inr (body, bodyDiags, p'')) \<Rightarrow>
               Some (Inr (Some (NodeBlock
                                  (MkBlock (Bytes ident) labels (Some body) (Range ident) labelRanges
                                     (Range oBrace) (PrevRange p''))),
                          diags @ bodyDiags, p''))))"
  by pat_completeness auto

termination
  by (relation "inv_image (less_than <*lex*> less_than)
        (\<lambda>v. case v of
           Inl (Inl (x, fuel, e, attrs, blocks, diags, p)) \<Rightarrow> (fuel, 0::nat)
         | Inl (Inr (x, fuel, e, p)) \<Rightarrow> (fuel, 1)
         | Inr (Inl (x, fuel, p)) \<Rightarrow> (fuel, 3)
         | Inr (Inr (x, fuel, ident, p)) \<Rightarrow> (fuel, 2))") auto

section \<open>Notions used in the properties\<close>

subsection \<open>The escape buffer\<close>

text \<open>The shapes the escape buffer takes.\<close>

definition esc_ok :: "string \<Rightarrow> bool" where
  "esc_ok e = (e = [] \<or> e = [CHR 0x5C] \<or> e = [CHR ''$''] \<or> e = [CHR ''!'']
               \<or> e = [CHR ''$'', CHR ''$''] \<or> e = [CHR ''!'', CHR ''!''])"

subsection \<open>Sample inputs\<close>

text \<open>
  Concrete inputs on which the theorems below are instantiated: an environment whose \<open>%q\<close>
  wraps a plain string in double quotes, ranges on one line of a file \<open>f\<close>, and tokens
  positioned by their byte offset.
\<close>

definition sample_extern :: extern where
  "sample_extern =
     \<lparr> ScanGraphemeClusters = ascii_clusters,
       Sprintf_q = (\<lambda>s. [CHR 0x22] @ s @ [CHR 0x22]),
       Range_String = (\<lambda>r. Filename r) \<rparr>"

definition rng :: "int \<Rightarrow> int \<Rightarrow> Range" where
  "rng a b = \<lparr> Filename = ''f'',
               Start = \<lparr> Line = 1, Column = a + 1, Byte = a \<rparr>,
               End = \<lparr> Line = 1, Column = b + 1, Byte = b \<rparr> \<rparr>"

definition tk :: "TokenType \<Rightarrow> string \<Rightarrow> int \<Rightarrow> Token" where
  "tk ty bs a = \<lparr> Type = ty, Bytes = bs, Range = rng a (a + int (length bs)) \<rparr>"

definition parser_of :: "Token list \<Rightarrow> int \<Rightarrow> parser" where
  "parser_of ts n = \<lparr> Unread = ts, LastRead = None, EOFRange = rng n n, recovery = False \<rparr>"

subsection \<open>Results of the block header loop\<close>

text \<open>What the header loop returns, whatever the tokens.\<close>

definition header_ok :: "Token \<Rightarrow> parser \<Rightarrow> error + header \<Rightarrow> bool" where
  "header_ok ident p res =
     (case res of
        Inl e \<Rightarrow> False
      | Inr (HeaderReturn b ds p') \<Rightarrow>
          Body b = None \<and> BlockType b = Bytes ident \<and> TypeRange b = Range ident
          \<and> OpenBraceRange b = Range ident \<and> CloseBraceRange b = Range ident
          \<and> length (Labels b) = length (LabelRanges b)
          \<and> recovery p' \<and> length (Unread p') \<le> length (Unread p)
      | Inr (HeaderBreak ls rs ds oBrace p') \<Rightarrow>
          length ls = length rs \<and> Type oBrace = TokenOBrace
          \<and> length (Unread p') < length (Unread p))"

subsection \<open>Results of the body and block parser\<close>

text \<open>Labels and label ranges match in number, in a block and in every block below it.\<close>

fun Block_labels_ok :: "Block \<Rightarrow> bool"
  and Body_labels_ok :: "Body \<Rightarrow> bool" where
  "Block_labels_ok (MkBlock ty labels body tr labelRanges ob cb) =
     (length labels = length labelRanges
      \<and> (case body of None \<Rightarrow> True | Some b \<Rightarrow> Body_labels_ok b))"
| "Body_labels_ok (MkBody attrs blocks sr er) = list_all Block_labels_ok blocks"

text \<open>What the parsers return when they return: no token comes back, and the blocks are sound.\<close>

definition loop_result_ok ::
  "parser \<Rightarrow> (error + ((string \<Rightarrow> Attribute option) \<times> Block list \<times> Diagnostics \<times> Range \<times> parser)) option
     \<Rightarrow> bool" where
  "loop_result_ok p res =
     (case res of
        Some (Inr (attrs, blocks, diags, endRange, p')) \<Rightarrow>
          length (Unread p') \<le> length (Unread p) \<and> list_all Block_labels_ok blocks
      | _ \<Rightarrow> True)"

definition body_result_ok ::
  "parser \<Rightarrow> (error + (Body \<times> Diagnostics \<times> parser)) option \<Rightarrow> bool" where
  "body_result_ok p res =
     (case res of
        Some (Inr (body, diags, p')) \<Rightarrow>
          length (Unread p') \<le> length (Unread p) \<and> Body_labels_ok body
      | _ \<Rightarrow> True)"

definition item_result_ok ::
  "parser \<Rightarrow> (error + (Node option \<times> Diagnostics \<times> parser)) option \<Rightarrow> bool" where
  "item_result_ok p res =
     (case res of
        Some (Inr (item, diags, p')) \<Rightarrow>
          length (Unread p') \<le> length (Unread p)
          \<and> (case item of Some (NodeBlock b) \<Rightarrow> Block_labels_ok b | _ \<Rightarrow> True)
      | _ \<Rightarrow> True)"

subsection \<open>Sample block headers\<close>

definition header_sample_ident :: Token where
  "header_sample_ident = tk TokenIdent ''a'' 0"

definition header_sample_equals :: parser where
  "header_sample_equals =
     \<lparr> Unread = [tk TokenEqual ''='' 6, tk (TokenOther 0) ''1'' 8, tk TokenNewline [CHR 0x0A] 9],
       LastRead = Some (rng 2 5), EOFRange = rng 10 10, recovery = False \<rparr>"

definition header_sample_label :: parser where
  "header_sample_label =
     \<lparr> Unread = [tk TokenOQuote [CHR 0x22] 2, tk TokenQuotedLit [CHR 0x5C, CHR ''q''] 3,
                 tk TokenCQuote [CHR 0x22] 5, tk TokenOBrace ''{'' 7, tk TokenCBrace ''}'' 8,
                 tk TokenNewline [CHR 0x0A] 9],
       LastRead = Some (rng 0 1), EOFRange = rng 10 10, recovery = False \<rparr>"

definition header_sample_after_label :: parser where
  "header_sample_after_label =
     \<lparr> Unread = [tk TokenOBrace ''{'' 7, tk TokenCBrace ''}'' 8, tk TokenNewline [CHR 0x0A] 9],
       LastRead = Some (rng 5 6), EOFRange = rng 10 10, recovery = False \<rparr>"

text \<open>The sample body: a block \<open>a\<close> with a broken label, then a block \<open>b\<close> with a label.\<close>

definition labels_sample :: parser where
  "labels_sample =
     parser_of [tk TokenIdent ''a'' 0, tk TokenOQuote [CHR 0x22] 2,
                tk TokenQuotedLit [CHR 0x5C, CHR ''q''] 3, tk TokenCQuote [CHR 0x22] 5,
                tk TokenOBrace ''{'' 7, tk TokenCBrace ''}'' 8, tk TokenNewline [CHR 0x0A] 9,
                tk TokenIdent ''b'' 10, tk TokenOQuote [CHR 0x22] 12,
                tk TokenQuotedLit ''x'' 13, tk TokenCQuote [CHR 0x22] 14,
                tk TokenOBrace ''{'' 16, tk TokenCBrace ''}'' 17] 18"

subsection \<open>Token streams of well-formed bodies\<close>

text \<open>
  The token streams of bodies without syntax errors and without attributes, as trees: an
  item is a newline or a block, and a block is its type name, its quoted labels, an
  opening brace, the items of its body and a closing brace. A label is an opening quote,
  literal tokens that decode without diagnostics, and a closing quote.
\<close>

datatype label = Label Token "Token list" Token

datatype item =
    NewlineItem Token
  | BlockItem Token "label list" Token "item list" Token

fun label_tokens :: "label \<Rightarrow> Token list" where
  "label_tokens (Label oq lits cq) = oq # lits @ [cq]"

fun item_tokens :: "item \<Rightarrow> Token list" where
  "item_tokens (NewlineItem t) = [t]"
| "item_tokens (BlockItem ident labels ob items cb) =
     ident # concat (map label_tokens labels) @ ob # concat (map item_tokens items) @ [cb]"

definition lit_wf :: "extern \<Rightarrow> Token \<Rightarrow> bool" where
  "lit_wf x t = (Type t = TokenQuotedLit
                 \<and> (case decodeStringLit x t of Inl e \<Rightarrow> False | Inr (s, ds) \<Rightarrow> ds = []))"

fun label_wf :: "extern \<Rightarrow> label \<Rightarrow> bool" where
  "label_wf x (Label oq lits cq) =
     (Type oq = TokenOQuote \<and> list_all (lit_wf x) lits \<and> Type cq = TokenCQuote)"

fun item_wf :: "extern \<Rightarrow> item \<Rightarrow> bool" where
  "item_wf x (NewlineItem t) = (Type t = TokenNewline)"
| "item_wf x (BlockItem ident labels ob items cb) =
     (Type ident = TokenIdent \<and> list_all (label_wf x) labels \<and> Type ob = TokenOBrace
      \<and> list_all (item_wf x) items \<and> Type cb = TokenCBrace)"

text \<open>The blocks such a tree stands for, with the ranges of its tokens.\<close>

definition lit_text :: "extern \<Rightarrow> Token \<Rightarrow> string" where
  "lit_text x t = (case decodeStringLit x t of Inl e \<Rightarrow> [] | Inr (s, ds) \<Rightarrow> s)"

fun label_text :: "extern \<Rightarrow> label \<Rightarrow> string" where
  "label_text x (Label oq lits cq) = concat (map (lit_text x) lits)"

fun label_range :: "label \<Rightarrow> Range" where
  "label_range (Label oq lits cq) = RangeBetween (Range oq) (Range cq)"

fun item_blocks :: "extern \<Rightarrow> item \<Rightarrow> Block list" where
  "item_blocks x (NewlineItem t) = []"
| "item_blocks x (BlockItem ident labels ob items cb) =
     [MkBlock (Bytes ident) (map (label_text x) labels)
        (Some (MkBody Map.empty (concat (map (item_blocks x) items))
                 (RangeBetween (Range ob) (Range cb))
                 \<lparr> Filename = Filename (Range cb), Start = End (Range cb), End = End (Range cb) \<rparr>))
        (Range ident) (map label_range labels) (Range ob) (Range cb)]"

definition items_tokens :: "item list \<Rightarrow> Token list" where
  "items_tokens items = concat (map item_tokens items)"

definition items_blocks :: "extern \<Rightarrow> item list \<Rightarrow> Block list" where
  "items_blocks x items = concat (map (item_blocks x) items)"

text \<open>The parser state after \<open>t\<close> was read and \<open>rest\<close> is left.\<close>

definition advance_to :: "Token \<Rightarrow> Token list \<Rightarrow> parser \<Rightarrow> parser" where
  "advance_to t rest p = p\<lparr> Unread := rest, LastRead := Some (Range t) \<rparr>"

text \<open>
  A block item parses when \<open>ParseBodyItem\<close>, started at its tokens with enough fuel,
  returns its block with no diagnostics and stops after its closing brace.
\<close>

definition is_block :: "item \<Rightarrow> bool" where
  "is_block i = (case i of NewlineItem t \<Rightarrow> False | BlockItem ident ls ob its cb \<Rightarrow> True)"

definition block_parses :: "extern \<Rightarrow> item \<Rightarrow> bool" where
  "block_parses x i =
     (\<forall>fuel p rest.
        Unread p = item_tokens i @ rest \<longrightarrow> length (Unread p) \<le> fuel \<longrightarrow>
        ParseBodyItem x fuel p =
          Some (Inr (Some (NodeBlock (hd (item_blocks x i))), [],
                     advance_to (last (item_tokens i)) rest p)))"

definition skip_to :: "Token list \<Rightarrow> Token list \<Rightarrow> parser \<Rightarrow> parser" where
  "skip_to toks rest p = (if toks = [] then p else advance_to (last toks) rest p)"

subsection \<open>Sample bodies\<close>

text \<open>
  A sample body: a block \<open>a\<close> with an empty body, a newline, and a block \<open>b\<close> with
  the label \<open>x\<close> and an empty body, up to the end of the input.
\<close>

definition body_sample :: "item list" where
  "body_sample =
     [BlockItem (tk TokenIdent ''a'' 0) [] (tk TokenOBrace ''{'' 2) [] (tk TokenCBrace ''}'' 3),
      NewlineItem (tk TokenNewline [CHR 0x0A] 4),
      BlockItem (tk TokenIdent ''b'' 5)
        [Label (tk TokenOQuote [CHR 0x22] 7) [tk TokenQuotedLit ''x'' 8] (tk TokenCQuote [CHR 0x22] 9)]
        (tk TokenOBrace ''{'' 11) [] (tk TokenCBrace ''}'' 12)]"

text \<open>The two attributes of \<open>a = 1\<close>, \<open>a = 2\<close>, had they been parsed, and the tokens of the text.\<close>

definition attr_first :: Attribute where
  "attr_first = \<lparr> Name = ''a'', Expr = FunctionCallExpr ''one'' [] (rng 4 5) (rng 4 5) (rng 4 5),
                  AttrSrcRange = rng 0 5, NameRange = rng 0 1 \<rparr>"

definition attr_second :: Attribute where
  "attr_second = \<lparr> Name = ''a'', Expr = FunctionCallExpr ''two'' [] (rng 10 11) (rng 10 11) (rng 10 11),
                   AttrSrcRange = rng 6 11, NameRange = rng 6 7 \<rparr>"

definition attrs_sample :: parser where
  "attrs_sample =
     parser_of [tk TokenIdent ''a'' 0, tk TokenEqual ''='' 2, tk (TokenOther 0) ''1'' 4,
                tk TokenNewline [CHR 0x0A] 5,
                tk TokenIdent ''a'' 6, tk TokenEqual ''='' 8, tk (TokenOther 0) ''2'' 10,
                tk TokenNewline [CHR 0x0A] 11] 12"

subsection \<open>Balanced template sequences\<close>

text \<open>
  The tokens between a template opener and its matching end: every opener among them is
  closed among them, and the end of the file is not among them. \<open>template_balanced_from k\<close>
  starts with \<open>k\<close> openers still to be closed.
\<close>

fun template_balanced_from :: "nat \<Rightarrow> Token list \<Rightarrow> bool" where
  "template_balanced_from k [] = (k = 0)"
| "template_balanced_from k (t # ts) =
     (if Type t = TokenTemplateInterp \<or> Type t = TokenTemplateControl then
        template_balanced_from (Suc k) ts
      else if Type t = TokenTemplateSeqEnd then
        (0 < k \<and> template_balanced_from (k - 1) ts)
      else if Type t = TokenEOF then False
      else template_balanced_from k ts)"

definition template_balanced :: "Token list \<Rightarrow> bool" where
  "template_balanced ts = template_balanced_from 0 ts"

subsection \<open>Tokens skipped by body-item recovery\<close>

text \<open>
  Tokens that body-item recovery, with the stack \<open>opn\<close> of open brackets, reads through
  and leaves with the same stack.
\<close>

definition skips :: "TokenType list \<Rightarrow> Token list \<Rightarrow> bool" where
  "skips opn ts =
     (\<forall>(p :: parser) rest. Unread p = ts @ rest \<longrightarrow>
        recoverAfterBodyItem_loop opn p = recoverAfterBodyItem_loop opn (skip_to ts rest p))"

subsection \<open>Blocks with a template sequence in a label\<close>

text \<open>
  The block whose label holds the template sequence, as \<open>finishParsingBodyBlock\<close> returns
  it: the labels up to and with the broken one, and no body.
\<close>

definition template_block ::
  "extern \<Rightarrow> Token \<Rightarrow> label list \<Rightarrow> Token \<Rightarrow> Token list \<Rightarrow> Token list \<Rightarrow> Token \<Rightarrow> Block" where
  "template_block x ident ls oq lits1 lits2 cq =
     MkBlock (Bytes ident)
       (map (label_text x) ls @ [concat (map (lit_text x) (lits1 @ lits2))])
       None (Range ident)
       (map label_range ls @ [RangeBetween (Range oq) (Range cq)])
       (Range ident) (Range ident)"

text \<open>
  The sample: a block \<open>a\<close> whose label is \<open>x\<close> followed by the interpolation of \<open>y\<close>, with an
  empty body, a newline, and a block \<open>b\<close> with an empty body.
\<close>

definition template_sample_post :: "item list" where
  "template_sample_post =
     [BlockItem (tk TokenIdent ''b'' 13) [] (tk TokenOBrace ''{'' 15) [] (tk TokenCBrace ''}'' 16)]"

definition template_sample :: parser where
  "template_sample =
     parser_of [tk TokenIdent ''a'' 0, tk TokenOQuote [CHR 0x22] 2, tk TokenQuotedLit ''x'' 3,
                tk TokenTemplateInterp ''${'' 4, tk TokenIdent ''y'' 6,
                tk TokenTemplateSeqEnd ''}'' 7, tk TokenCQuote [CHR 0x22] 8,
                tk TokenOBrace ''{'' 10, tk TokenCBrace ''}'' 11, tk TokenNewline [CHR 0x0A] 12,
                tk TokenIdent ''b'' 13, tk TokenOBrace ''{'' 15, tk TokenCBrace ''}'' 16] 17"

text \<open>
  Two bodies in which the block with the template sequence does not end its line: in the
  first, \<open>a "x${y}" {} b {}\<close>, a newline, and \<open>c {}\<close>, a block \<open>b\<close> follows on the same line;
  in the second, \<open>o { a "x${y}" {} }\<close>, a newline, and \<open>b {}\<close>, the block is nested in a block
  \<open>o\<close> that is closed on the same line.
\<close>

definition template_same_line :: parser where
  "template_same_line =
     parser_of [tk TokenIdent ''a'' 0, tk TokenOQuote [CHR 0x22] 2, tk TokenQuotedLit ''x'' 3,
                tk TokenTemplateInterp ''${'' 4, tk TokenIdent ''y'' 6,
                tk TokenTemplateSeqEnd ''}'' 7, tk TokenCQuote [CHR 0x22] 8,
                tk TokenOBrace ''{'' 10, tk TokenCBrace ''}'' 11,
                tk TokenIdent ''b'' 13, tk TokenOBrace ''{'' 15, tk TokenCBrace ''}'' 16,
                tk TokenNewline [CHR 0x0A] 17,
                tk TokenIdent ''c'' 18, tk TokenOBrace ''{'' 20, tk TokenCBrace ''}'' 21] 22"

definition template_nested :: parser where
  "template_nested =
     parser_of [tk TokenIdent ''o'' 0, tk TokenOBrace ''{'' 2,
                tk TokenIdent ''a'' 4, tk TokenOQuote [CHR 0x22] 6, tk TokenQuotedLit ''x'' 7,
                tk TokenTemplateInterp ''${'' 8, tk TokenIdent ''y'' 10,
                tk TokenTemplateSeqEnd ''}'' 11, tk TokenCQuote [CHR 0x22] 12,
                tk TokenOBrace ''{'' 14, tk TokenCBrace ''}'' 15, tk TokenCBrace ''}'' 17,
                tk TokenNewline [CHR 0x0A] 18,
                tk TokenIdent ''b'' 19, tk TokenOBrace ''{'' 21, tk TokenCBrace ''}'' 22] 23"

section \<open>Properties of the escape decoder\<close>

lemma decodeStringLit_loop_Cons:
  "decodeStringLit_loop quoted tok (c # cs) s =
     (case decodeStringLit_loop quoted tok [c] s of
        Inl e \<Rightarrow> Inl e
      | Inr s' \<Rightarrow> decodeStringLit_loop quoted tok cs s')"
  by (simp add: Let_def)

lemma decodeStringLit_loop_append:
  "decodeStringLit_loop quoted tok (cs @ cs') s =
     (case decodeStringLit_loop quoted tok cs s of
        Inl e \<Rightarrow> Inl e
      | Inr s' \<Rightarrow> decodeStringLit_loop quoted tok cs' s')"
proof (induction cs arbitrary: s)
  case Nil
  show ?case by simp
next
  case (Cons c cs)
  have "decodeStringLit_loop quoted tok ((c # cs) @ cs') s =
          (case decodeStringLit_loop quoted tok [c] s of
             Inl e \<Rightarrow> Inl e
           | Inr s' \<Rightarrow> decodeStringLit_loop quoted tok (cs @ cs') s')"
    using decodeStringLit_loop_Cons [of quoted tok c "cs @ cs'" s] by simp
  also have "\<dots> = (case decodeStringLit_loop quoted tok (c # cs) s of
             Inl e \<Rightarrow> Inl e
           | Inr s' \<Rightarrow> decodeStringLit_loop quoted tok cs' s')"
    by (subst decodeStringLit_loop_Cons [of quoted tok c cs s])
       (simp add: Cons.IH split: sum.splits)
  finally show ?case .
qed

lemma singleton_nth: "length ch = 1 \<Longrightarrow> ch = [ch ! 0]"
  by (cases ch) simp_all

lemma decodeStringLit_step_ok:
  assumes "esc_ok (dec_esc s)"
  shows "\<exists>s'. decodeStringLit_loop quoted tok [ch] s = Inr s' \<and> esc_ok (dec_esc s')"
  using assms unfolding esc_ok_def
  by (elim disjE) (simp_all add: Let_def)

lemma decodeStringLit_loop_ok:
  "esc_ok (dec_esc s) \<Longrightarrow> \<exists>s'. decodeStringLit_loop quoted tok cs s = Inr s' \<and> esc_ok (dec_esc s')"
proof (induction cs arbitrary: s rule: rev_induct)
  case Nil
  then show ?case by simp
next
  case (snoc c cs)
  from snoc.IH [OF snoc.prems] obtain s1 where
    s1: "decodeStringLit_loop quoted tok cs s = Inr s1" "esc_ok (dec_esc s1)" by blast
  from decodeStringLit_step_ok [OF s1(2), of quoted tok c] obtain s2 where
    "decodeStringLit_loop quoted tok [c] s1 = Inr s2" "esc_ok (dec_esc s2)" by blast
  with s1 show ?case by (simp add: decodeStringLit_loop_append)
qed

lemma decodeStringLit_run_ok:
  "\<exists>s. decodeStringLit_run x quoted tok = Inr s \<and> esc_ok (dec_esc s)"
  unfolding decodeStringLit_run_def
  by (rule decodeStringLit_loop_ok) (simp add: esc_ok_def)

lemma decodeStringLit_no_panic:
  assumes "Type tok = TokenQuotedLit \<or> Type tok = TokenStringLit"
  shows "\<exists>s ds. decodeStringLit x tok = Inr (s, ds)"
proof -
  from decodeStringLit_run_ok [of x "Type tok = TokenQuotedLit" tok]
  obtain s where "decodeStringLit_run x (Type tok = TokenQuotedLit) tok = Inr s" by blast
  with assms show ?thesis by (auto simp: decodeStringLit_def)
qed

lemma singleton_eq: "length c = Suc 0 \<Longrightarrow> c ! 0 = m \<Longrightarrow> c = [m]"
  by (cases c) simp_all

lemma decodeStringLit_step_esc2:
  assumes "esc_ok (dec_esc s1)"
    and "decodeStringLit_loop quoted tok [c] s1 = Inr s"
    and "length (dec_esc s) = 2"
  shows "\<exists>m. (m = CHR ''$'' \<or> m = CHR ''!'') \<and> c = [m] \<and> dec_esc s1 = [m]
            \<and> dec_esc s = [m, m] \<and> dec_ret s = dec_ret s1 \<and> dec_diags s = dec_diags s1"
  using assms unfolding esc_ok_def
  by (elim disjE) (auto simp: Let_def singleton_eq split: if_splits)

lemma decodeStringLit_step_esc1:
  assumes "esc_ok (dec_esc s2)"
    and "decodeStringLit_loop quoted tok [c] s2 = Inr s1"
    and "dec_esc s1 = [m]"
    and "m = CHR ''$'' \<or> m = CHR ''!''"
  shows "c = [m] \<and> dec_esc s2 = [] \<and> dec_ret s1 = dec_ret s2 \<and> dec_diags s1 = dec_diags s2"
  using assms unfolding esc_ok_def
  by (elim disjE) (auto simp: Let_def singleton_eq split: if_splits)

lemma parseQuotedStringLiteral_loop_no_panic:
  "\<exists>r ds cq p'. parseQuotedStringLiteral_loop x oQuote ret diags p = Inr (r, ds, cq, p')"
proof (induction x oQuote ret diags p rule: parseQuotedStringLiteral_loop.induct)
  case (1 x oQuote ret diags p)
  show ?case
  proof (cases "Type (fst (Read p)) = TokenQuotedLit")
    case True
    then obtain s sDiags where dec: "decodeStringLit x (fst (Read p)) = Inr (s, sDiags)"
      using decodeStringLit_no_panic [of "fst (Read p)" x] by blast
    from "1.IH"(1) [OF refl refl _ True dec refl] True
    obtain r ds cq p' where
      "parseQuotedStringLiteral_loop x oQuote (ret @ s) (diags @ sDiags) (snd (Read p)) = Inr (r, ds, cq, p')"
      by auto
    with True dec show ?thesis
      by (subst parseQuotedStringLiteral_loop.simps) (simp add: Let_def)
  next
    case False
    show ?thesis
    proof (cases "Type (fst (Read p)) = TokenTemplateControl \<or> Type (fst (Read p)) = TokenTemplateInterp")
      case True
      from "1.IH"(2) [OF refl refl _ False True] True
      obtain r ds cq p' where "parseQuotedStringLiteral_loop x oQuote ret
          (diags @ [template_diag x oQuote (fst (Read p))])
          (recover TokenTemplateSeqEnd (snd (Read p))) = Inr (r, ds, cq, p')"
        by auto
      with True False show ?thesis
        by (subst parseQuotedStringLiteral_loop.simps) (auto simp: Let_def)
    next
      case nt: False
      with False show ?thesis
        by (subst parseQuotedStringLiteral_loop.simps) (simp add: Let_def)
    qed
  qed
qed

lemma parseQuotedStringLiteral_no_panic:
  "\<exists>r. parseQuotedStringLiteral x p = Inr r"
proof -
  obtain r ds cq p' where
    "parseQuotedStringLiteral_loop x (fst (Read p)) [] [] (snd (Read p)) = Inr (r, ds, cq, p')"
    using parseQuotedStringLiteral_loop_no_panic by blast
  then show ?thesis
    by (simp add: parseQuotedStringLiteral_def Let_def)
qed

section \<open>Claims about the escape decoder\<close>

text \<open>
  C5. In quoted mode the escape decoder decodes the bytes \<open>a\nb\<close> (a backslash and an
  \<open>n\<close>) to \<open>a\<close>, a newline and \<open>b\<close> with no diagnostics; \<open>\q\<close> to \<open>q\<close> with exactly one
  "Invalid escape sequence" diagnostic; \<open>$${val}\<close> to \<open>${val}\<close> with no diagnostics; and
  \<open>$x\<close> to \<open>$x\<close> with no diagnostics. The token's range \<open>r\<close> is arbitrary, and the
  clusters of these ASCII bytes are the single bytes.
\<close>

theorem decodeStringLit_table:
  "decodeStringLit (x\<lparr> ScanGraphemeClusters := ascii_clusters \<rparr>)
     \<lparr> Type = TokenQuotedLit, Bytes = [CHR ''a'', CHR 0x5C, CHR ''n'', CHR ''b''], Range = r \<rparr>
     = Inr ([CHR ''a'', CHR 0x0A, CHR ''b''], [])
   \<and> decodeStringLit (x\<lparr> ScanGraphemeClusters := ascii_clusters \<rparr>)
     \<lparr> Type = TokenQuotedLit, Bytes = [CHR 0x5C, CHR ''q''], Range = r \<rparr>
     = Inr (''q'',
            [\<lparr> Severity = DiagError,
               Summary = ''Invalid escape sequence'',
               Detail = ''The characters '' @ [CHR 0x22, CHR 0x5C] @ ''q'' @ [CHR 0x22]
                        @ '' do not form a recognized escape sequence.'',
               Subject = Some \<lparr> Filename = Filename r,
                                Start = \<lparr> Line = Line (Start r), Column = Column (Start r),
                                          Byte = Byte (Start r) \<rparr>,
                                End = \<lparr> Line = Line (Start r), Column = Column (Start r) + 2,
                                        Byte = Byte (Start r) + 2 \<rparr> \<rparr>,
               Context = None \<rparr>])
   \<and> decodeStringLit (x\<lparr> ScanGraphemeClusters := ascii_clusters \<rparr>)
     \<lparr> Type = TokenQuotedLit, Bytes = ''$${val}'', Range = r \<rparr>
     = Inr (''${val}'', [])
   \<and> decodeStringLit (x\<lparr> ScanGraphemeClusters := ascii_clusters \<rparr>)
     \<lparr> Type = TokenQuotedLit, Bytes = ''$x'', Range = r \<rparr>
     = Inr (''$x'', [])"
  by (simp add: decodeStringLit_def decodeStringLit_run_def Let_def advance_def
        escape_diag_def escape_detail_def)

text \<open>
  C7. Whenever the clusters of a literal are exhausted while the escape buffer holds two
  characters, the literal ends in a doubled marker (\<open>$$\<close> or \<open>!!\<close>) that was read with an
  empty buffer, and \<open>decodeStringLit\<close> returns exactly the text and the diagnostics
  accumulated before the two markers: the buffered characters are dropped, not flushed.
\<close>

theorem decodeStringLit_drops_pending_marker:
  assumes ty: "Type tok = TokenQuotedLit \<or> Type tok = TokenStringLit"
    and run: "decodeStringLit_run x (Type tok = TokenQuotedLit) tok = Inr s"
    and pending: "length (dec_esc s) = 2"
  shows "\<exists>cs m s'. ScanGraphemeClusters x (Bytes tok) = cs @ [[m], [m]]
           \<and> (m = CHR ''$'' \<or> m = CHR ''!'')
           \<and> dec_esc s = [m, m]
           \<and> decodeStringLit_loop (Type tok = TokenQuotedLit) tok cs
                \<lparr> dec_ret = [], dec_esc = [], dec_newPos = Start (Range tok), dec_diags = [] \<rparr> = Inr s'
           \<and> dec_esc s' = []
           \<and> decodeStringLit x tok = Inr (dec_ret s', dec_diags s')"
proof -
  let ?q = "Type tok = TokenQuotedLit"
  let ?init = "\<lparr> dec_ret = [], dec_esc = [], dec_newPos = Start (Range tok), dec_diags = [] \<rparr>"
  let ?all = "ScanGraphemeClusters x (Bytes tok)"
  have init_ok: "esc_ok (dec_esc ?init)" by (simp add: esc_ok_def)
  from run have all: "decodeStringLit_loop ?q tok ?all ?init = Inr s"
    by (simp add: decodeStringLit_run_def)
  have "?all \<noteq> []"
  proof
    assume "?all = []"
    with all have "s = ?init" by simp
    with pending show False by simp
  qed
  then obtain cs1 c1 where split1: "?all = cs1 @ [c1]"
    by (metis rev_exhaust)
  from decodeStringLit_loop_ok [OF init_ok, of ?q tok cs1] obtain s1 where
    s1: "decodeStringLit_loop ?q tok cs1 ?init = Inr s1" "esc_ok (dec_esc s1)" by blast
  from all split1 s1 have step1: "decodeStringLit_loop ?q tok [c1] s1 = Inr s"
    by (simp add: decodeStringLit_loop_append)
  from decodeStringLit_step_esc2 [OF s1(2) step1 pending] obtain m where
    m: "m = CHR ''$'' \<or> m = CHR ''!''" "c1 = [m]" "dec_esc s1 = [m]" "dec_esc s = [m, m]"
       "dec_ret s = dec_ret s1" "dec_diags s = dec_diags s1"
    by blast
  have "cs1 \<noteq> []"
  proof
    assume "cs1 = []"
    with s1 have "s1 = ?init" by simp
    with m(3) show False by simp
  qed
  then obtain cs c2 where split2: "cs1 = cs @ [c2]"
    by (metis rev_exhaust)
  from decodeStringLit_loop_ok [OF init_ok, of ?q tok cs] obtain s2 where
    s2: "decodeStringLit_loop ?q tok cs ?init = Inr s2" "esc_ok (dec_esc s2)" by blast
  from s1(1) split2 s2 have step2: "decodeStringLit_loop ?q tok [c2] s2 = Inr s1"
    by (simp add: decodeStringLit_loop_append)
  from decodeStringLit_step_esc1 [OF s2(2) step2 m(3) m(1)]
  have c2: "c2 = [m]" "dec_esc s2 = []" "dec_ret s1 = dec_ret s2" "dec_diags s1 = dec_diags s2"
    by simp_all
  have clusters: "?all = cs @ [[m], [m]]"
    using split1 split2 m(2) c2(1) by simp
  have result: "decodeStringLit x tok = Inr (dec_ret s2, dec_diags s2)"
    using ty run m(5,6) c2(3,4) by (simp add: decodeStringLit_def)
  from clusters m(1) m(4) s2(1) c2(2) result show ?thesis by blast
qed

theorem decodeStringLit_drops_pending_marker_witness:
  "decodeStringLit_run sample_extern True (tk TokenQuotedLit ''ab$$'' 0)
     = Inr \<lparr> dec_ret = ''ab'', dec_esc = ''$$'',
             dec_newPos = \<lparr> Line = 1, Column = 5, Byte = 4 \<rparr>, dec_diags = [] \<rparr>
   \<and> decodeStringLit sample_extern (tk TokenQuotedLit ''ab$$'' 0) = Inr (''ab'', [])"
proof -
  let ?tok = "tk TokenQuotedLit ''ab$$'' 0"
  let ?s = "\<lparr> dec_ret = ''ab'', dec_esc = ''$$'',
              dec_newPos = \<lparr> Line = 1, Column = 5, Byte = 4 \<rparr>, dec_diags = [] \<rparr>"
  have ty: "Type ?tok = TokenQuotedLit \<or> Type ?tok = TokenStringLit"
    by (simp add: tk_def)
  have run: "decodeStringLit_run sample_extern (Type ?tok = TokenQuotedLit) ?tok = Inr ?s"
    by (simp add: decodeStringLit_run_def sample_extern_def tk_def rng_def Let_def advance_def)
  have pending: "length (dec_esc ?s) = 2" by simp
  from decodeStringLit_drops_pending_marker [OF ty run pending]
  obtain cs m s' where
    cl: "ScanGraphemeClusters sample_extern (Bytes ?tok) = cs @ [[m], [m]]"
    and lp: "decodeStringLit_loop (Type ?tok = TokenQuotedLit) ?tok cs
               \<lparr> dec_ret = [], dec_esc = [], dec_newPos = Start (Range ?tok), dec_diags = [] \<rparr> = Inr s'"
    and res: "decodeStringLit sample_extern ?tok = Inr (dec_ret s', dec_diags s')"
    by blast
  from cl have "[''a'', ''b'', ''$'', ''$''] = cs @ [[m], [m]]"
    by (simp add: sample_extern_def tk_def)
  then have "butlast (butlast [''a'', ''b'', ''$'', ''$'']) = butlast (butlast (cs @ [[m], [m]]))"
    by (rule arg_cong)
  then have cs: "cs = [''a'', ''b'']"
    by (simp add: butlast_append)
  from lp cs have "dec_ret s' = ''ab'' \<and> dec_diags s' = []"
    by (auto simp: Let_def tk_def)
  with res run show ?thesis by (simp add: tk_def)
qed

text \<open>
  C10. \<open>decodeStringLit\<close> panics on a token that is neither quoted literal text nor raw
  string literal text, and \<open>parseQuotedStringLiteral\<close>, which hands it tokens of type
  \<open>TokenQuotedLit\<close> only, never panics: it returns a result on every parser state.
\<close>

theorem decodeStringLit_panic_unreachable:
  "(Type tok \<noteq> TokenQuotedLit \<and> Type tok \<noteq> TokenStringLit \<longrightarrow>
      decodeStringLit x tok =
        Inl (Panic ''decodeQuotedLit can only be used with TokenStringLit and TokenQuotedLit tokens''))
   \<and> (\<exists>label rng ds p'. parseQuotedStringLiteral x p = Inr (label, rng, ds, p'))"
proof
  show "Type tok \<noteq> TokenQuotedLit \<and> Type tok \<noteq> TokenStringLit \<longrightarrow>
      decodeStringLit x tok =
        Inl (Panic ''decodeQuotedLit can only be used with TokenStringLit and TokenQuotedLit tokens'')"
    by (simp add: decodeStringLit_def)
next
  from parseQuotedStringLiteral_no_panic [of x p] obtain r where
    "parseQuotedStringLiteral x p = Inr r" by blast
  then show "\<exists>label rng ds p'. parseQuotedStringLiteral x p = Inr (label, rng, ds, p')"
    by (cases r) auto
qed

theorem decodeStringLit_panic_unreachable_witness:
  "decodeStringLit sample_extern (tk TokenIdent ''a'' 0) =
     Inl (Panic ''decodeQuotedLit can only be used with TokenStringLit and TokenQuotedLit tokens'')
   \<and> (\<exists>label rng ds p'.
        parseQuotedStringLiteral sample_extern
          (parser_of [tk TokenOQuote [CHR 0x22] 0, tk TokenQuotedLit ''a'' 1, tk TokenCQuote [CHR 0x22] 2] 3)
        = Inr (label, rng, ds, p'))"
  using decodeStringLit_panic_unreachable [of "tk TokenIdent ''a'' 0" sample_extern
      "parser_of [tk TokenOQuote [CHR 0x22] 0, tk TokenQuotedLit ''a'' 1, tk TokenCQuote [CHR 0x22] 2] 3"]
  by (simp add: tk_def)

section \<open>Properties of error recovery\<close>

lemma Read_Unread: "Unread (snd (Read p)) = tl (Unread p)"
  by (simp add: Read_def)

lemma drop_bounded: "ys = drop k xs \<Longrightarrow> \<exists>j\<le>length xs. ys = drop j xs"
  by (rule exI [of _ "min k (length xs)"]) (simp add: min_def)

lemma drop_after_Read:
  assumes "Unread p' = drop k (Unread (snd (Read p)))"
  shows "Unread p' = drop (Suc k) (Unread p)"
  using assms by (simp add: Read_Unread drop_Suc)

lemma recover_loop_drop:
  "\<exists>k. Unread (recover_loop e nest p) = drop k (Unread p)"
proof (induction e nest p rule: recover_loop.induct)
  case (1 e nest p)
  define ty where "ty = (if e = TokenTemplateSeqEnd \<and> Type (fst (Read p)) = TokenTemplateControl
                then TokenTemplateInterp else Type (fst (Read p)))"
  have unf: "recover_loop e nest p =
      (if ty = oppositeBracket e then recover_loop e (nest + 1) (snd (Read p))
       else if ty = e then (if nest < 1 then snd (Read p) else recover_loop e (nest - 1) (snd (Read p)))
       else if ty = TokenEOF then snd (Read p)
       else recover_loop e nest (snd (Read p)))"
    by (subst recover_loop.simps) (simp only: Let_def ty_def)
  have a: "ty = oppositeBracket e \<Longrightarrow>
      \<exists>k. Unread (recover_loop e (nest + 1) (snd (Read p))) = drop k (Unread (snd (Read p)))"
    using "1.IH"(1) [OF refl refl refl refl] by (simp add: ty_def)
  have b: "ty \<noteq> oppositeBracket e \<Longrightarrow> ty = e \<Longrightarrow> \<not> nest < 1 \<Longrightarrow>
      \<exists>k. Unread (recover_loop e (nest - 1) (snd (Read p))) = drop k (Unread (snd (Read p)))"
    using "1.IH"(2) [OF refl refl refl refl] by (simp add: ty_def)
  have c: "ty \<noteq> oppositeBracket e \<Longrightarrow> ty \<noteq> e \<Longrightarrow> ty \<noteq> TokenEOF \<Longrightarrow>
      \<exists>k. Unread (recover_loop e nest (snd (Read p))) = drop k (Unread (snd (Read p)))"
    using "1.IH"(3) [OF refl refl refl refl] by (simp add: ty_def)
  have here: "Unread (snd (Read p)) = drop (Suc 0) (Unread p)"
    by (simp add: Read_Unread drop_Suc)
  have lift: "\<And>q. \<exists>k. Unread q = drop k (Unread (snd (Read p)))
                 \<Longrightarrow> \<exists>k. Unread q = drop k (Unread p)"
    using drop_after_Read by blast
  consider (ca) "ty = oppositeBracket e"
    | (cb1) "ty \<noteq> oppositeBracket e" "ty = e" "nest < 1"
    | (cb2) "ty \<noteq> oppositeBracket e" "ty = e" "\<not> nest < 1"
    | (ce) "ty \<noteq> oppositeBracket e" "ty \<noteq> e" "ty = TokenEOF"
    | (cc) "ty \<noteq> oppositeBracket e" "ty \<noteq> e" "ty \<noteq> TokenEOF"
    by blast
  then show ?case
  proof cases
    case ca
    have "recover_loop e nest p = recover_loop e (nest + 1) (snd (Read p))"
      unfolding unf using ca by simp
    with lift [OF a [OF ca]] show ?thesis by simp
  next
    case cb1
    have "recover_loop e nest p = snd (Read p)"
      unfolding unf using cb1 by simp
    with here show ?thesis by metis
  next
    case cb2
    have "recover_loop e nest p = recover_loop e (nest - 1) (snd (Read p))"
      unfolding unf using cb2 by simp
    with lift [OF b [OF cb2]] show ?thesis by simp
  next
    case ce
    have "recover_loop e nest p = snd (Read p)"
      unfolding unf using ce by simp
    with here show ?thesis by metis
  next
    case cc
    have "recover_loop e nest p = recover_loop e nest (snd (Read p))"
      unfolding unf using cc by simp
    with lift [OF c [OF cc]] show ?thesis by simp
  qed
qed

lemma recoverAfterBodyItem_loop_cases:
  assumes stop: "P (snd (Read p))"
    and continue: "\<And>opn'. Type (fst (Read p)) \<noteq> TokenEOF
                     \<Longrightarrow> P (recoverAfterBodyItem_loop opn' (snd (Read p)))"
  shows "P (recoverAfterBodyItem_loop opn p)"
  by (subst recoverAfterBodyItem_loop.simps) (simp add: Let_def stop continue)

lemma recoverAfterBodyItem_loop_drop:
  "\<exists>k. Unread (recoverAfterBodyItem_loop opn p) = drop k (Unread p)"
proof (induction "length (Unread p)" arbitrary: opn p rule: less_induct)
  case less
  show ?case
  proof (rule recoverAfterBodyItem_loop_cases)
    have "Unread (snd (Read p)) = drop (Suc 0) (Unread p)"
      by (simp add: Read_Unread drop_Suc)
    then show "\<exists>k. Unread (snd (Read p)) = drop k (Unread p)" ..
  next
    fix opn'
    assume ne: "Type (fst (Read p)) \<noteq> TokenEOF"
    from less [OF Read_not_EOF_length [OF ne], of opn'] obtain k where
      "Unread (recoverAfterBodyItem_loop opn' (snd (Read p))) = drop k (Unread (snd (Read p)))"
      by blast
    from drop_after_Read [OF this]
    show "\<exists>k. Unread (recoverAfterBodyItem_loop opn' (snd (Read p))) = drop k (Unread p)" ..
  qed
qed

lemma recover_drop: "\<exists>k. Unread (recover e p) = drop k (Unread p)"
  using recover_loop_drop [of e 0 "p\<lparr> recovery := True \<rparr>"] by (simp add: recover_def)

lemma recoverAfterBodyItem_drop: "\<exists>k. Unread (recoverAfterBodyItem p) = drop k (Unread p)"
  using recoverAfterBodyItem_loop_drop [of "[]" "p\<lparr> recovery := True \<rparr>"]
  by (simp add: recoverAfterBodyItem_def)

lemma recoverAfterBodyItem_length:
  "length (Unread (recoverAfterBodyItem p)) \<le> length (Unread p)"
  using recoverAfterBodyItem_drop [of p] by auto

text \<open>
  C2. \<open>recover\<close> and \<open>recoverAfterBodyItem\<close> are total functions: their loops are defined
  with termination proofs, by measures that fall with the unread tokens, whatever the
  tokens are. On every parser state each of them consumes some number \<open>k\<close> of tokens
  that is at most the number of tokens still unread, and leaves the others untouched.
\<close>

theorem recovery_consumes_at_most_unread:
  "(\<exists>k\<le>length (Unread p). Unread (recover e p) = drop k (Unread p))
   \<and> (\<exists>k\<le>length (Unread p). Unread (recoverAfterBodyItem p) = drop k (Unread p))"
proof
  from recover_drop [of e p] obtain k where "Unread (recover e p) = drop k (Unread p)"
    by blast
  then show "\<exists>k\<le>length (Unread p). Unread (recover e p) = drop k (Unread p)"
    by (rule drop_bounded)
next
  from recoverAfterBodyItem_drop [of p] obtain k where
    "Unread (recoverAfterBodyItem p) = drop k (Unread p)"
    by blast
  then show "\<exists>k\<le>length (Unread p). Unread (recoverAfterBodyItem p) = drop k (Unread p)"
    by (rule drop_bounded)
qed

section \<open>Properties of the block header loop\<close>

lemma Read_recovery: "recovery (snd (Read p)) = recovery p"
  by (simp add: Read_def)

lemma Read_EOFRange: "EOFRange (snd (Read p)) = EOFRange p"
  by (simp add: Read_def)

lemma fst_Read: "fst (Read p) = Peek p"
  by (simp add: Read_def)

lemma recoverAfterBodyItem_loop_recovery:
  "recovery (recoverAfterBodyItem_loop opn p) = recovery p"
proof (induction "length (Unread p)" arbitrary: opn p rule: less_induct)
  case less
  show ?case
  proof (rule recoverAfterBodyItem_loop_cases)
    show "recovery (snd (Read p)) = recovery p" by (rule Read_recovery)
  next
    fix opn'
    assume ne: "Type (fst (Read p)) \<noteq> TokenEOF"
    from less [OF Read_not_EOF_length [OF ne], of opn']
    show "recovery (recoverAfterBodyItem_loop opn' (snd (Read p))) = recovery p"
      by (simp add: Read_recovery)
  qed
qed

lemma recoverAfterBodyItem_recovery: "recovery (recoverAfterBodyItem p)"
  by (simp add: recoverAfterBodyItem_def recoverAfterBodyItem_loop_recovery)

lemma finishParsingBodyBlock_labels_cases:
  assumes brace: "Type (Peek p) = TokenOBrace
      \<Longrightarrow> P (Inr (HeaderBreak labels labelRanges diags (fst (Read p)) (snd (Read p))))"
    and quote_bad: "\<And>label labelRange labelDiags p'.
      Type (Peek p) = TokenOQuote
      \<Longrightarrow> parseQuotedStringLiteral x p = Inr (label, labelRange, labelDiags, p')
      \<Longrightarrow> HasErrors labelDiags
      \<Longrightarrow> P (Inr (HeaderReturn
                   (MkBlock (Bytes ident) (labels @ [label]) None (Range ident)
                      (labelRanges @ [labelRange]) (Range ident) (Range ident))
                   (diags @ labelDiags) (recoverAfterBodyItem p')))"
    and quote_ok: "\<And>label labelRange labelDiags p'.
      Type (Peek p) = TokenOQuote
      \<Longrightarrow> parseQuotedStringLiteral x p = Inr (label, labelRange, labelDiags, p')
      \<Longrightarrow> \<not> HasErrors labelDiags
      \<Longrightarrow> P (finishParsingBodyBlock_labels x ident (labels @ [label])
               (labelRanges @ [labelRange]) (diags @ labelDiags) p')"
    and other: "Type (Peek p) \<noteq> TokenOBrace \<Longrightarrow> Type (Peek p) \<noteq> TokenOQuote
      \<Longrightarrow> P (Inr (HeaderReturn
                   (MkBlock (Bytes ident) labels None (Range ident) labelRanges
                      (Range ident) (Range ident))
                   (diags @ header_diags ident (Peek p) (recovery p))
                   (recoverAfterBodyItem p)))"
  shows "P (finishParsingBodyBlock_labels x ident labels labelRanges diags p)"
proof -
  obtain label labelRange labelDiags p' where
    pq: "parseQuotedStringLiteral x p = Inr (label, labelRange, labelDiags, p')"
    using parseQuotedStringLiteral_no_panic [of x p] by (metis prod_cases4)
  show ?thesis
    using brace quote_bad [OF _ pq] quote_ok [OF _ pq] other
    by (subst finishParsingBodyBlock_labels.simps) (simp add: Let_def pq)
qed

lemma header_ok_mono:
  "header_ok ident p' res \<Longrightarrow> length (Unread p') \<le> length (Unread p) \<Longrightarrow> header_ok ident p res"
  by (auto simp: header_ok_def split: sum.splits header.splits)

lemma parseQuotedStringLiteral_length_le:
  assumes "parseQuotedStringLiteral x p = Inr (label, lr, ds, p')"
  shows "length (Unread p') \<le> length (Unread p)"
proof (cases "Type (fst (Read p)) = TokenOQuote")
  case True
  from parseQuotedStringLiteral_length [OF assms] True show ?thesis by (simp add: fst_Read)
next
  case False
  with assms have "p' = snd (Read p)"
    by (simp add: parseQuotedStringLiteral_def Let_def)
  then show ?thesis by (simp add: Read_Unread_length)
qed

lemma finishParsingBodyBlock_labels_ok:
  "length labels = length labelRanges
     \<Longrightarrow> header_ok ident p (finishParsingBodyBlock_labels x ident labels labelRanges diags p)"
proof (induction "length (Unread p)" arbitrary: labels labelRanges diags p rule: less_induct)
  case less
  show ?case
  proof (rule finishParsingBodyBlock_labels_cases)
    assume "Type (Peek p) = TokenOBrace"
    then have "Type (fst (Read p)) \<noteq> TokenEOF" by (simp add: fst_Read)
    from Read_not_EOF_length [OF this] less.prems \<open>Type (Peek p) = TokenOBrace\<close>
    show "header_ok ident p (Inr (HeaderBreak labels labelRanges diags (fst (Read p)) (snd (Read p))))"
      by (simp add: header_ok_def fst_Read)
  next
    fix label labelRange labelDiags p'
    assume pq: "parseQuotedStringLiteral x p = Inr (label, labelRange, labelDiags, p')"
    from recoverAfterBodyItem_length [of p'] parseQuotedStringLiteral_length_le [OF pq] less.prems
    show "header_ok ident p (Inr (HeaderReturn
                   (MkBlock (Bytes ident) (labels @ [label]) None (Range ident)
                      (labelRanges @ [labelRange]) (Range ident) (Range ident))
                   (diags @ labelDiags) (recoverAfterBodyItem p')))"
      by (simp add: header_ok_def recoverAfterBodyItem_recovery)
  next
    fix label labelRange labelDiags p'
    assume q: "Type (Peek p) = TokenOQuote"
      and pq: "parseQuotedStringLiteral x p = Inr (label, labelRange, labelDiags, p')"
    from parseQuotedStringLiteral_length [OF pq q]
    have lt: "length (Unread p') < length (Unread p)" .
    from less.prems have "length (labels @ [label]) = length (labelRanges @ [labelRange])"
      by simp
    from less.hyps [OF lt this]
    have "header_ok ident p' (finishParsingBodyBlock_labels x ident (labels @ [label])
               (labelRanges @ [labelRange]) (diags @ labelDiags) p')" .
    from header_ok_mono [OF this] lt
    show "header_ok ident p (finishParsingBodyBlock_labels x ident (labels @ [label])
               (labelRanges @ [labelRange]) (diags @ labelDiags) p')"
      by simp
  next
    from recoverAfterBodyItem_length [of p] less.prems
    show "header_ok ident p (Inr (HeaderReturn
                   (MkBlock (Bytes ident) labels None (Range ident) labelRanges
                      (Range ident) (Range ident))
                   (diags @ header_diags ident (Peek p) (recovery p))
                   (recoverAfterBodyItem p)))"
      by (simp add: header_ok_def recoverAfterBodyItem_recovery)
  qed
qed

section \<open>Properties of the body and block parser\<close>

declare ParseBody_loop.simps [simp del]

declare ParseBody.simps [simp del]

declare ParseBodyItem.simps [simp del]

declare finishParsingBodyBlock.simps [simp del]

lemma ParseBody_item_blocks:
  "ParseBody_item x item attrs blocks diags = (attrs', blocks', diags')
     \<Longrightarrow> blocks' = blocks @ (case item of Some (NodeBlock b) \<Rightarrow> [b] | _ \<Rightarrow> [])"
  by (auto simp: ParseBody_item_def split: option.splits Node.splits)

lemma body_ok_from_loop:
  assumes "\<And>p. loop_result_ok p (ParseBody_loop x fuel end Map.empty [] [] p)"
  shows "body_result_ok p (ParseBody x fuel end p)"
  using assms [of p]
  by (auto simp: ParseBody.simps body_result_ok_def loop_result_ok_def Let_def
           split: option.splits sum.splits)

lemma block_ok_from_body:
  assumes "\<And>p. body_result_ok p (ParseBody x fuel TokenCBrace p)"
  shows "item_result_ok p (finishParsingBodyBlock x fuel ident p)"
proof -
  have h: "header_ok ident p (finishParsingBodyBlock_labels x ident [] [] [] p)"
    by (rule finishParsingBodyBlock_labels_ok) simp
  show ?thesis
  proof (cases "finishParsingBodyBlock_labels x ident [] [] [] p")
    case (Inl e)
    with h show ?thesis by (simp add: header_ok_def)
  next
    case (Inr hd)
    show ?thesis
    proof (cases hd)
      case (HeaderReturn b ds p')
      with h Inr show ?thesis
        by (cases b) (simp add: finishParsingBodyBlock.simps header_ok_def item_result_ok_def)
    next
      case (HeaderBreak ls rs ds oBrace p')
      with h Inr have lt: "length (Unread p') < length (Unread p)" and len: "length ls = length rs"
        by (simp_all add: header_ok_def)
      from assms [of p'] lt len show ?thesis
        by (auto simp: finishParsingBodyBlock.simps Inr HeaderBreak body_result_ok_def
                 item_result_ok_def split: option.splits sum.splits)
    qed
  qed
qed

lemma item_ok_from_block:
  assumes "\<And>ident p. item_result_ok p (finishParsingBodyBlock x fuel ident p)"
  shows "item_result_ok p (ParseBodyItem x fuel p)"
proof -
  have r: "length (Unread (recoverAfterBodyItem (snd (Read p)))) \<le> length (Unread p)"
    using recoverAfterBodyItem_length [of "snd (Read p)"] Read_Unread_length [of p] by simp
  have b: "item_result_ok p (finishParsingBodyBlock x fuel (fst (Read p)) (snd (Read p)))"
    using assms [of "snd (Read p)" "fst (Read p)"] Read_Unread_length [of p]
    by (auto simp: item_result_ok_def split: option.splits sum.splits)
  show ?thesis
    using r b
    by (simp add: ParseBodyItem.simps Let_def item_result_ok_def finishParsingBodyAttribute_def)
qed

lemma Peek_not_EOF_length:
  assumes "Type (Peek p) \<noteq> TokenEOF"
  shows "length (Unread (snd (Read p))) < length (Unread p)"
  using Read_not_EOF_length [of p] assms by (simp add: fst_Read)

lemma ParseBodyItem_consumes:
  assumes "ParseBodyItem x fuel p = Some (Inr (item, ds, p'))"
    and "\<And>ident p. item_result_ok p (finishParsingBodyBlock x fuel ident p)"
    and "Type (Peek p) = TokenIdent"
  shows "length (Unread p') < length (Unread p)"
proof -
  from assms(3) have lt: "length (Unread (snd (Read p))) < length (Unread p)"
    by (intro Peek_not_EOF_length) simp
  have r: "length (Unread (recoverAfterBodyItem (snd (Read p)))) \<le> length (Unread (snd (Read p)))"
    by (rule recoverAfterBodyItem_length)
  from assms(1) assms(2) [of "snd (Read p)" "fst (Read p)"] lt r show ?thesis
    by (auto simp: ParseBodyItem.simps Let_def item_result_ok_def finishParsingBodyAttribute_def
             split: if_splits)
qed

lemma ParseBody_loop_Suc_cases:
  assumes at_end: "Type (Peek p) = end
      \<Longrightarrow> P (Some (Inr (attrs, blocks, diags, NextRange p, snd (Read p))))"
    and newline: "Type (Peek p) \<noteq> end \<Longrightarrow> Type (Peek p) = TokenNewline
      \<Longrightarrow> P (ParseBody_loop x fuel end attrs blocks diags (snd (Read p)))"
    and item_none: "Type (Peek p) \<noteq> end \<Longrightarrow> Type (Peek p) = TokenIdent
      \<Longrightarrow> ParseBodyItem x fuel p = None \<Longrightarrow> P None"
    and item_error: "\<And>e. Type (Peek p) \<noteq> end \<Longrightarrow> Type (Peek p) = TokenIdent
      \<Longrightarrow> ParseBodyItem x fuel p = Some (Inl e) \<Longrightarrow> P (Some (Inl e))"
    and item: "\<And>item itemDiags p' attrs' blocks' diags'.
      Type (Peek p) \<noteq> end \<Longrightarrow> Type (Peek p) = TokenIdent
      \<Longrightarrow> ParseBodyItem x fuel p = Some (Inr (item, itemDiags, p'))
      \<Longrightarrow> ParseBody_item x item attrs blocks (diags @ itemDiags) = (attrs', blocks', diags')
      \<Longrightarrow> P (ParseBody_loop x fuel end attrs' blocks' diags' p')"
    and bad: "Type (Peek p) \<noteq> end \<Longrightarrow> Type (Peek p) \<noteq> TokenNewline
      \<Longrightarrow> Type (Peek p) \<noteq> TokenIdent
      \<Longrightarrow> P (Some (Inr (attrs, blocks,
                        diags @ bad_token_diags (fst (Read p)) (recovery (snd (Read p))),
                        PrevRange (snd (Read p)), recover end (snd (Read p)))))"
  shows "P (ParseBody_loop x (Suc fuel) end attrs blocks diags p)"
proof (cases "Type (Peek p) = end")
  case True
  with at_end show ?thesis by (simp add: ParseBody_loop.simps)
next
  case ne: False
  show ?thesis
  proof (cases "Type (Peek p) = TokenNewline")
    case True
    with ne newline show ?thesis by (simp add: ParseBody_loop.simps)
  next
    case nn: False
    show ?thesis
    proof (cases "Type (Peek p) = TokenIdent")
      case False
      with ne nn bad show ?thesis by (simp add: ParseBody_loop.simps Let_def)
    next
      case True
      show ?thesis
      proof (cases "ParseBodyItem x fuel p")
        case None
        with ne nn True item_none show ?thesis by (simp add: ParseBody_loop.simps)
      next
        case (Some r)
        show ?thesis
        proof (cases r)
          case (Inl e)
          with Some ne nn True item_error show ?thesis by (simp add: ParseBody_loop.simps)
        next
          case (Inr t)
          obtain item itemDiags p' where t: "t = (item, itemDiags, p')"
            by (cases t) auto
          obtain attrs' blocks' diags' where
            cl: "ParseBody_item x item attrs blocks (diags @ itemDiags) = (attrs', blocks', diags')"
            by (cases "ParseBody_item x item attrs blocks (diags @ itemDiags)") auto
          from item [OF ne True _ cl, of p'] Some Inr t
          have "P (ParseBody_loop x fuel end attrs' blocks' diags' p')" by simp
          with Some Inr t cl ne nn True show ?thesis by (simp add: ParseBody_loop.simps)
        qed
      qed
    qed
  qed
qed

lemma loop_ok_Suc:
  assumes loop: "\<And>e attrs blocks diags p.
        list_all Block_labels_ok blocks
        \<Longrightarrow> loop_result_ok p (ParseBody_loop x fuel e attrs blocks diags p)"
    and item: "\<And>p. item_result_ok p (ParseBodyItem x fuel p)"
    and blocks: "list_all Block_labels_ok blocks"
  shows "loop_result_ok p (ParseBody_loop x (Suc fuel) end attrs blocks diags p)"
proof (rule ParseBody_loop_Suc_cases)
  have step: "length (Unread (snd (Read p))) \<le> length (Unread p)"
    by (rule Read_Unread_length)
  {
    show "loop_result_ok p (Some (Inr (attrs, blocks, diags, NextRange p, snd (Read p))))"
      using step blocks by (simp add: loop_result_ok_def)
  next
    show "loop_result_ok p (ParseBody_loop x fuel end attrs blocks diags (snd (Read p)))"
      using loop [OF blocks, of "snd (Read p)" "end" attrs diags] step
      by (auto simp: loop_result_ok_def split: option.splits sum.splits)
  next
    show "loop_result_ok p None" by (simp add: loop_result_ok_def)
  next
    fix e
    show "loop_result_ok p (Some (Inl e))" by (simp add: loop_result_ok_def)
  next
    fix item' itemDiags p' attrs' blocks' diags'
    assume pi: "ParseBodyItem x fuel p = Some (Inr (item', itemDiags, p'))"
      and cl: "ParseBody_item x item' attrs blocks (diags @ itemDiags) = (attrs', blocks', diags')"
    from item [of p] pi have le: "length (Unread p') \<le> length (Unread p)"
      and ok: "case item' of Some (NodeBlock b) \<Rightarrow> Block_labels_ok b | _ \<Rightarrow> True"
      by (simp_all add: item_result_ok_def)
    from ParseBody_item_blocks [OF cl] ok blocks have "list_all Block_labels_ok blocks'"
      by (auto split: option.splits Node.splits)
    from loop [OF this, of p' "end" attrs' diags'] le
    show "loop_result_ok p (ParseBody_loop x fuel end attrs' blocks' diags' p')"
      by (auto simp: loop_result_ok_def split: option.splits sum.splits)
  next
    have "length (Unread (recover end (snd (Read p)))) \<le> length (Unread p)"
      using recover_length [of "end" "snd (Read p)"] step by simp
    then show "loop_result_ok p (Some (Inr (attrs, blocks,
                        diags @ bad_token_diags (fst (Read p)) (recovery (snd (Read p))),
                        PrevRange (snd (Read p)), recover end (snd (Read p)))))"
      using blocks by (simp add: loop_result_ok_def)
  }
qed

lemma ParseBody_loop_ok:
  "list_all Block_labels_ok blocks
     \<Longrightarrow> loop_result_ok p (ParseBody_loop x fuel end attrs blocks diags p)"
proof (induction fuel arbitrary: "end" attrs blocks diags p)
  case 0
  show ?case by (simp add: ParseBody_loop.simps loop_result_ok_def)
next
  case (Suc fuel)
  have body: "\<And>e p. body_result_ok p (ParseBody x fuel e p)"
    by (rule body_ok_from_loop) (simp add: Suc.IH)
  have block: "\<And>ident p. item_result_ok p (finishParsingBodyBlock x fuel ident p)"
    by (rule block_ok_from_body) (rule body)
  have item: "\<And>p. item_result_ok p (ParseBodyItem x fuel p)"
    by (rule item_ok_from_block) (rule block)
  show ?case
    by (rule loop_ok_Suc) (simp_all add: Suc.IH Suc.prems item)
qed

lemma ParseBody_ok: "body_result_ok p (ParseBody x fuel end p)"
  by (rule body_ok_from_loop) (simp add: ParseBody_loop_ok)

lemma finishParsingBodyBlock_ok: "item_result_ok p (finishParsingBodyBlock x fuel ident p)"
  by (rule block_ok_from_body) (rule ParseBody_ok)

lemma ParseBodyItem_ok: "item_result_ok p (ParseBodyItem x fuel p)"
  by (rule item_ok_from_block) (rule finishParsingBodyBlock_ok)

text \<open>With more fuel than unread tokens the parsers return.\<close>

lemma finishParsingBodyBlock_fuel:
  assumes body: "\<And>p. length (Unread p) < fuel \<Longrightarrow> ParseBody x fuel TokenCBrace p \<noteq> None"
    and len: "length (Unread p) \<le> fuel"
  shows "finishParsingBodyBlock x fuel ident p \<noteq> None"
proof -
  have h: "header_ok ident p (finishParsingBodyBlock_labels x ident [] [] [] p)"
    by (rule finishParsingBodyBlock_labels_ok) simp
  show ?thesis
  proof (cases "finishParsingBodyBlock_labels x ident [] [] [] p")
    case (Inl e)
    then show ?thesis by (simp add: finishParsingBodyBlock.simps)
  next
    case (Inr hd)
    show ?thesis
    proof (cases hd)
      case (HeaderReturn b ds p')
      with Inr show ?thesis by (simp add: finishParsingBodyBlock.simps)
    next
      case (HeaderBreak ls rs ds oBrace p')
      with h Inr len have "length (Unread p') < fuel"
        by (simp add: header_ok_def)
      from body [OF this] Inr HeaderBreak show ?thesis
        by (auto simp: finishParsingBodyBlock.simps split: option.splits sum.splits)
    qed
  qed
qed

lemma ParseBodyItem_fuel:
  assumes body: "\<And>p. length (Unread p) < fuel \<Longrightarrow> ParseBody x fuel TokenCBrace p \<noteq> None"
    and len: "length (Unread p) \<le> fuel"
  shows "ParseBodyItem x fuel p \<noteq> None"
proof -
  from len Read_Unread_length [of p] have "length (Unread (snd (Read p))) \<le> fuel" by simp
  from finishParsingBodyBlock_fuel [OF body this]
  have "finishParsingBodyBlock x fuel (fst (Read p)) (snd (Read p)) \<noteq> None" by simp
  then show ?thesis by (simp add: ParseBodyItem.simps Let_def)
qed

lemma ParseBody_fuel_from_loop:
  assumes "\<And>attrs blocks diags. ParseBody_loop x fuel end attrs blocks diags p \<noteq> None"
  shows "ParseBody x fuel end p \<noteq> None"
  using assms [of Map.empty "[]" "[]"]
  by (auto simp: ParseBody.simps Let_def split: option.splits sum.splits)

lemma ParseBody_loop_fuel:
  "length (Unread p) < fuel \<Longrightarrow> ParseBody_loop x fuel end attrs blocks diags p \<noteq> None"
proof (induction fuel arbitrary: "end" attrs blocks diags p)
  case 0
  then show ?case by simp
next
  case (Suc fuel)
  have body: "\<And>e p. length (Unread p) < fuel \<Longrightarrow> ParseBody x fuel e p \<noteq> None"
    by (rule ParseBody_fuel_from_loop) (simp add: Suc.IH)
  show ?case
  proof (rule ParseBody_loop_Suc_cases)
    assume "Type (Peek p) = TokenNewline"
    then have "length (Unread (snd (Read p))) < length (Unread p)"
      by (intro Peek_not_EOF_length) simp
    with Suc.prems have "length (Unread (snd (Read p))) < fuel" by simp
    then show "ParseBody_loop x fuel end attrs blocks diags (snd (Read p)) \<noteq> None"
      by (rule Suc.IH)
  next
    assume "ParseBodyItem x fuel p = None"
    moreover from Suc.prems have "length (Unread p) \<le> fuel" by simp
    from ParseBodyItem_fuel [OF body this]
    have "ParseBodyItem x fuel p \<noteq> None" by simp
    ultimately show "None \<noteq> (None :: (error + ((string \<Rightarrow> Attribute option) \<times> Block list \<times> Diagnostics \<times> Range \<times> parser)) option)"
      by simp
  next
    fix item' itemDiags p' attrs' blocks' diags'
    assume ident: "Type (Peek p) = TokenIdent"
      and pi: "ParseBodyItem x fuel p = Some (Inr (item', itemDiags, p'))"
    from ParseBodyItem_consumes [OF pi finishParsingBodyBlock_ok ident] Suc.prems
    have "length (Unread p') < fuel" by simp
    then show "ParseBody_loop x fuel end attrs' blocks' diags' p' \<noteq> None"
      by (rule Suc.IH)
  qed simp_all
qed

lemma ParseBody_fuel:
  "length (Unread p) < fuel \<Longrightarrow> ParseBody x fuel end p \<noteq> None"
  by (rule ParseBody_fuel_from_loop) (simp add: ParseBody_loop_fuel)

lemma finishParsingBodyBlock_labels_recovered:
  "finishParsingBodyBlock_labels x ident labels labelRanges diags p = Inr (HeaderReturn b ds q)
     \<Longrightarrow> \<exists>q0. q = recoverAfterBodyItem q0"
proof (induction "length (Unread p)" arbitrary: labels labelRanges diags p rule: less_induct)
  case less
  let ?P = "\<lambda>res. res = Inr (HeaderReturn b ds q) \<longrightarrow> (\<exists>q0. q = recoverAfterBodyItem q0)"
  have "?P (finishParsingBodyBlock_labels x ident labels labelRanges diags p)"
  proof (rule finishParsingBodyBlock_labels_cases)
    fix label labelRange labelDiags p'
    assume q: "Type (Peek p) = TokenOQuote"
      and pq: "parseQuotedStringLiteral x p = Inr (label, labelRange, labelDiags, p')"
    from less.hyps [OF parseQuotedStringLiteral_length [OF pq q]]
    show "?P (finishParsingBodyBlock_labels x ident (labels @ [label])
               (labelRanges @ [labelRange]) (diags @ labelDiags) p')"
      by blast
  qed auto
  with less.prems show ?case by simp
qed

section \<open>Claims about blocks\<close>

lemma Block_labels_ok_length: "Block_labels_ok b \<Longrightarrow> length (Labels b) = length (LabelRanges b)"
  by (cases b) simp

text \<open>
  C4. Whenever \<open>finishParsingBodyBlock\<close> detects an error in the block header, it invokes
  body-item recovery and returns a partial block: its body is absent and both brace ranges
  are the range of the type name. An error is detected in a round of the header loop when
  the next token is neither an opening brace nor an opening quote (an equals sign, a
  newline or any other token, told apart by the diagnostic), or when the label parsed at
  an opening quote reported an error; the loop may have collected labels before. The
  last part is about the whole function: every return from inside the header loop is such
  a partial block, and the parser state is the one body-item recovery left.
\<close>

theorem finishParsingBodyBlock_header_error:
  "(Type (Peek p1) \<noteq> TokenOBrace \<and> Type (Peek p1) \<noteq> TokenOQuote \<longrightarrow>
      finishParsingBodyBlock_labels x ident labels labelRanges diags p1 =
        Inr (HeaderReturn
               (MkBlock (Bytes ident) labels None (Range ident) labelRanges (Range ident) (Range ident))
               (diags @ header_diags ident (Peek p1) (recovery p1))
               (recoverAfterBodyItem p1)))
   \<and> (Type (Peek p2) = TokenOQuote
        \<and> parseQuotedStringLiteral x p2 = Inr (label, labelRange, labelDiags, p2')
        \<and> HasErrors labelDiags \<longrightarrow>
      finishParsingBodyBlock_labels x ident labels' labelRanges' diags' p2 =
        Inr (HeaderReturn
               (MkBlock (Bytes ident) (labels' @ [label]) None (Range ident)
                  (labelRanges' @ [labelRange]) (Range ident) (Range ident))
               (diags' @ labelDiags)
               (recoverAfterBodyItem p2')))
   \<and> (finishParsingBodyBlock_labels x ident [] [] [] p3 = Inr (HeaderReturn b ds q) \<longrightarrow>
        finishParsingBodyBlock x fuel ident p3 = Some (Inr (Some (NodeBlock b), ds, q))
        \<and> Body b = None
        \<and> OpenBraceRange b = Range ident
        \<and> CloseBraceRange b = Range ident
        \<and> recovery q
        \<and> (\<exists>q0. q = recoverAfterBodyItem q0))"
proof (intro conjI impI)
  assume "Type (Peek p1) \<noteq> TokenOBrace \<and> Type (Peek p1) \<noteq> TokenOQuote"
  then show "finishParsingBodyBlock_labels x ident labels labelRanges diags p1 =
        Inr (HeaderReturn
               (MkBlock (Bytes ident) labels None (Range ident) labelRanges (Range ident) (Range ident))
               (diags @ header_diags ident (Peek p1) (recovery p1))
               (recoverAfterBodyItem p1))"
    by (subst finishParsingBodyBlock_labels.simps) (simp add: Let_def)
next
  assume "Type (Peek p2) = TokenOQuote
        \<and> parseQuotedStringLiteral x p2 = Inr (label, labelRange, labelDiags, p2')
        \<and> HasErrors labelDiags"
  then show "finishParsingBodyBlock_labels x ident labels' labelRanges' diags' p2 =
        Inr (HeaderReturn
               (MkBlock (Bytes ident) (labels' @ [label]) None (Range ident)
                  (labelRanges' @ [labelRange]) (Range ident) (Range ident))
               (diags' @ labelDiags)
               (recoverAfterBodyItem p2'))"
    by (subst finishParsingBodyBlock_labels.simps) (simp add: Let_def)
next
  assume ret: "finishParsingBodyBlock_labels x ident [] [] [] p3 = Inr (HeaderReturn b ds q)"
  have "header_ok ident p3 (finishParsingBodyBlock_labels x ident [] [] [] p3)"
    by (rule finishParsingBodyBlock_labels_ok) simp
  with ret have ok: "Body b = None" "OpenBraceRange b = Range ident"
      "CloseBraceRange b = Range ident" "recovery q"
    by (simp_all add: header_ok_def)
  from ret show "finishParsingBodyBlock x fuel ident p3 = Some (Inr (Some (NodeBlock b), ds, q))"
    by (simp add: finishParsingBodyBlock.simps)
  from ok show "Body b = None" "OpenBraceRange b = Range ident"
      "CloseBraceRange b = Range ident" "recovery q"
    by simp_all
  from finishParsingBodyBlock_labels_recovered [OF ret]
  show "\<exists>q0. q = recoverAfterBodyItem q0" .
qed

lemma header_sample_label_parse:
  "parseQuotedStringLiteral sample_extern header_sample_label =
     Inr (''q'', rng 2 6,
          [escape_diag (tk TokenQuotedLit [CHR 0x5C, CHR ''q''] 3)
             \<lparr> Line = 1, Column = 5, Byte = 4 \<rparr> ''q''],
          header_sample_after_label)"
  by (simp add: parseQuotedStringLiteral_def parseQuotedStringLiteral_loop.simps Let_def
        header_sample_label_def header_sample_after_label_def Read_def Peek_def tk_def rng_def
        decodeStringLit_def decodeStringLit_run_def sample_extern_def advance_def RangeBetween_def)

theorem finishParsingBodyBlock_header_error_witness:
  "Type (Peek header_sample_equals) \<noteq> TokenOBrace
   \<and> Type (Peek header_sample_equals) \<noteq> TokenOQuote
   \<and> finishParsingBodyBlock_labels sample_extern header_sample_ident [''x''] [rng 2 5] []
        header_sample_equals =
      Inr (HeaderReturn
             (MkBlock ''a'' [''x''] None (rng 0 1) [rng 2 5] (rng 0 1) (rng 0 1))
             (header_diags header_sample_ident (tk TokenEqual ''='' 6) False)
             (recoverAfterBodyItem header_sample_equals))
   \<and> Type (Peek header_sample_label) = TokenOQuote
   \<and> HasErrors [escape_diag (tk TokenQuotedLit [CHR 0x5C, CHR ''q''] 3)
                  \<lparr> Line = 1, Column = 5, Byte = 4 \<rparr> ''q'']
   \<and> finishParsingBodyBlock_labels sample_extern header_sample_ident [] [] []
        header_sample_label =
      Inr (HeaderReturn
             (MkBlock ''a'' [''q''] None (rng 0 1) [rng 2 6] (rng 0 1) (rng 0 1))
             [escape_diag (tk TokenQuotedLit [CHR 0x5C, CHR ''q''] 3)
                \<lparr> Line = 1, Column = 5, Byte = 4 \<rparr> ''q'']
             (recoverAfterBodyItem header_sample_after_label))
   \<and> finishParsingBodyBlock sample_extern 0 header_sample_ident header_sample_label =
      Some (Inr (Some (NodeBlock (MkBlock ''a'' [''q''] None (rng 0 1) [rng 2 6] (rng 0 1) (rng 0 1))),
                 [escape_diag (tk TokenQuotedLit [CHR 0x5C, CHR ''q''] 3)
                    \<lparr> Line = 1, Column = 5, Byte = 4 \<rparr> ''q''],
                 recoverAfterBodyItem header_sample_after_label))
   \<and> recovery (recoverAfterBodyItem header_sample_after_label)"
proof -
  let ?d = "escape_diag (tk TokenQuotedLit [CHR 0x5C, CHR ''q''] 3)
              \<lparr> Line = 1, Column = 5, Byte = 4 \<rparr> ''q''"
  let ?b = "MkBlock ''a'' [''q''] None (rng 0 1) [rng 2 6] (rng 0 1) (rng 0 1)"
  have errs: "HasErrors [?d]"
    by (simp add: HasErrors_def escape_diag_def)
  have peek1: "Type (Peek header_sample_equals) \<noteq> TokenOBrace
      \<and> Type (Peek header_sample_equals) \<noteq> TokenOQuote"
    by (simp add: header_sample_equals_def Peek_def tk_def)
  have peek2: "Type (Peek header_sample_label) = TokenOQuote"
    by (simp add: header_sample_label_def Peek_def tk_def)
  note inst = finishParsingBodyBlock_header_error
    [where ?p1.0 = header_sample_equals and x = sample_extern and ident = header_sample_ident
       and labels = "[''x'']" and labelRanges = "[rng 2 5]" and diags = "[]"
       and ?p2.0 = header_sample_label and label = "''q''" and labelRange = "rng 2 6"
       and labelDiags = "[?d]" and p2' = header_sample_after_label
       and labels' = "[]" and labelRanges' = "[]" and diags' = "[]"
       and ?p3.0 = header_sample_label and b = ?b and ds = "[?d]"
       and q = "recoverAfterBodyItem header_sample_after_label" and fuel = 0]
  from inst peek1 have part1:
    "finishParsingBodyBlock_labels sample_extern header_sample_ident [''x''] [rng 2 5] []
        header_sample_equals =
      Inr (HeaderReturn
             (MkBlock ''a'' [''x''] None (rng 0 1) [rng 2 5] (rng 0 1) (rng 0 1))
             (header_diags header_sample_ident (tk TokenEqual ''='' 6) False)
             (recoverAfterBodyItem header_sample_equals))"
    by (simp add: header_sample_ident_def header_sample_equals_def Peek_def tk_def)
  from inst peek2 header_sample_label_parse errs have part2:
    "finishParsingBodyBlock_labels sample_extern header_sample_ident [] [] []
        header_sample_label =
      Inr (HeaderReturn ?b [?d] (recoverAfterBodyItem header_sample_after_label))"
    by (simp add: header_sample_ident_def tk_def)
  from inst part2 have part3:
    "finishParsingBodyBlock sample_extern 0 header_sample_ident header_sample_label =
      Some (Inr (Some (NodeBlock ?b), [?d], recoverAfterBodyItem header_sample_after_label))
     \<and> recovery (recoverAfterBodyItem header_sample_after_label)"
    by simp
  from peek1 peek2 errs part1 part2 part3 show ?thesis by simp
qed

text \<open>
  C9. Every block the parser returns has as many labels as label ranges: the blocks of a
  body that \<open>ParseBody\<close> returns and the block that \<open>finishParsingBodyBlock\<close> or
  \<open>ParseBodyItem\<close> returns, complete or partial, together with every block nested in them.
  With more fuel than unread tokens \<open>ParseBody\<close> does return.
\<close>

theorem parser_blocks_labels_ok:
  "(ParseBody x fuel end p = Some (Inr (body, ds, p')) \<longrightarrow>
      Body_labels_ok body
      \<and> list_all (\<lambda>b. length (Labels b) = length (LabelRanges b)) (Blocks body))
   \<and> (finishParsingBodyBlock x fuel ident q = Some (Inr (Some (NodeBlock b), ds', q')) \<longrightarrow>
      Block_labels_ok b \<and> length (Labels b) = length (LabelRanges b))
   \<and> (ParseBodyItem x fuel r = Some (Inr (Some (NodeBlock b'), ds'', r')) \<longrightarrow>
      Block_labels_ok b' \<and> length (Labels b') = length (LabelRanges b'))
   \<and> (length (Unread p) < fuel \<longrightarrow> ParseBody x fuel end p \<noteq> None)"
proof (intro conjI impI)
  assume res: "ParseBody x fuel end p = Some (Inr (body, ds, p'))"
  from ParseBody_ok [of p x fuel "end"] res show ok: "Body_labels_ok body"
    by (simp add: body_result_ok_def)
  then show "list_all (\<lambda>b. length (Labels b) = length (LabelRanges b)) (Blocks body)"
    by (cases body) (auto simp: list_all_iff dest: Block_labels_ok_length)
next
  assume res: "finishParsingBodyBlock x fuel ident q = Some (Inr (Some (NodeBlock b), ds', q'))"
  from finishParsingBodyBlock_ok [of q x fuel ident] res show ok: "Block_labels_ok b"
    by (simp add: item_result_ok_def)
  then show "length (Labels b) = length (LabelRanges b)"
    by (rule Block_labels_ok_length)
next
  assume res: "ParseBodyItem x fuel r = Some (Inr (Some (NodeBlock b'), ds'', r'))"
  from ParseBodyItem_ok [of r x fuel] res show ok: "Block_labels_ok b'"
    by (simp add: item_result_ok_def)
  then show "length (Labels b') = length (LabelRanges b')"
    by (rule Block_labels_ok_length)
next
  assume "length (Unread p) < fuel"
  then show "ParseBody x fuel end p \<noteq> None"
    by (rule ParseBody_fuel)
qed

text \<open>The equations that evaluate the parser on a concrete token sequence.\<close>

lemmas parser_eval =
  ParseBody.simps ParseBody_loop.simps ParseBodyItem.simps finishParsingBodyBlock.simps
  finishParsingBodyBlock_labels.simps parseQuotedStringLiteral_def
  parseQuotedStringLiteral_loop.simps recoverAfterBodyItem_def recoverAfterBodyItem_loop.simps
  recover_def recover_loop.simps pop_to.simps finishParsingBodyAttribute_def ParseBody_item_def
  decodeStringLit_def decodeStringLit_run_def advance_def HasErrors_def
  Peek_def Read_def NextRange_def PrevRange_def Let_def

lemmas sample_eval = sample_extern_def parser_of_def tk_def

theorem parser_blocks_labels_ok_witness:
  "\<exists>body ds p'.
     ParseBody sample_extern 14 TokenEOF labels_sample = Some (Inr (body, ds, p'))
     \<and> map Labels (Blocks body) = [[''q''], [''x'']]
     \<and> map (length \<circ> LabelRanges) (Blocks body) = [1, 1]
     \<and> map Body (Blocks body) \<noteq> [None, None]
     \<and> Body_labels_ok body
     \<and> list_all (\<lambda>b. length (Labels b) = length (LabelRanges b)) (Blocks body)"
proof -
  have "\<exists>body ds p'.
     ParseBody sample_extern 14 TokenEOF labels_sample = Some (Inr (body, ds, p'))
     \<and> map Labels (Blocks body) = [[''q''], [''x'']]
     \<and> map (length \<circ> LabelRanges) (Blocks body) = [1, 1]
     \<and> map Body (Blocks body) \<noteq> [None, None]"
    by (simp add: labels_sample_def parser_eval sample_eval numeral_nat)
  then obtain body ds p' where
    res: "ParseBody sample_extern 14 TokenEOF labels_sample = Some (Inr (body, ds, p'))"
    and shape: "map Labels (Blocks body) = [[''q''], [''x'']]"
      "map (length \<circ> LabelRanges) (Blocks body) = [1, 1]"
      "map Body (Blocks body) \<noteq> [None, None]"
    by auto
  from parser_blocks_labels_ok [of sample_extern 14 TokenEOF labels_sample body ds p'] res
  have "Body_labels_ok body"
    and "list_all (\<lambda>b. length (Labels b) = length (LabelRanges b)) (Blocks body)"
    by simp_all
  with res shape show ?thesis by auto
qed

section \<open>Well-formed bodies\<close>

lemma Read_Cons: "Unread p = t # rest \<Longrightarrow> Read p = (t, advance_to t rest p)"
  by (simp add: Read_def Peek_def advance_to_def)

lemma Peek_Cons: "Unread p = t # rest \<Longrightarrow> Peek p = t"
  by (simp add: Peek_def)

lemma advance_to_simps [simp]:
  "Unread (advance_to t rest p) = rest"
  "LastRead (advance_to t rest p) = Some (Range t)"
  "recovery (advance_to t rest p) = recovery p"
  "EOFRange (advance_to t rest p) = EOFRange p"
  "advance_to t' rest' (advance_to t rest p) = advance_to t' rest' p"
  by (simp_all add: advance_to_def)

lemma PrevRange_advance_to [simp]: "PrevRange (advance_to t rest p) = Range t"
  by (simp add: PrevRange_def)

lemma parseQuotedStringLiteral_loop_lits:
  assumes "list_all (lit_wf x) lits" and "Type cq = TokenCQuote"
    and "Unread p = lits @ cq # rest"
  shows "parseQuotedStringLiteral_loop x oq ret diags p =
           Inr (ret @ concat (map (lit_text x) lits), diags, cq, advance_to cq rest p)"
  using assms
proof (induction lits arbitrary: ret p)
  case Nil
  then have "Read p = (cq, advance_to cq rest p)" by (simp add: Read_Cons)
  with Nil show ?case
    by (subst parseQuotedStringLiteral_loop.simps) (simp add: Let_def)
next
  case (Cons t lits)
  from Cons.prems have rd: "Read p = (t, advance_to t (lits @ cq # rest) p)"
    by (simp add: Read_Cons)
  from Cons.prems obtain s where dec: "decodeStringLit x t = Inr (s, [])" and ty: "Type t = TokenQuotedLit"
    by (auto simp: lit_wf_def split: sum.splits)
  have lt: "lit_text x t = s" using dec by (simp add: lit_text_def)
  from Cons.prems have "list_all (lit_wf x) lits" by simp
  from Cons.IH [OF this Cons.prems(2), of "advance_to t (lits @ cq # rest) p" "ret @ s"]
  have "parseQuotedStringLiteral_loop x oq (ret @ s) diags (advance_to t (lits @ cq # rest) p) =
          Inr ((ret @ s) @ concat (map (lit_text x) lits), diags, cq, advance_to cq rest p)"
    by simp
  with rd dec ty lt show ?case
    by (subst parseQuotedStringLiteral_loop.simps) (simp add: Let_def)
qed

lemma parseQuotedStringLiteral_label:
  assumes "label_wf x l" and "Unread p = label_tokens l @ rest"
  shows "parseQuotedStringLiteral x p =
           Inr (label_text x l, label_range l, [], advance_to (last (label_tokens l)) rest p)"
proof (cases l)
  case (Label oq lits cq)
  with assms have rd: "Read p = (oq, advance_to oq (lits @ cq # rest) p)"
    by (simp add: Read_Cons)
  from assms Label have wf: "list_all (lit_wf x) lits" "Type cq = TokenCQuote" "Type oq = TokenOQuote"
    by simp_all
  from parseQuotedStringLiteral_loop_lits [OF wf(1,2), of "advance_to oq (lits @ cq # rest) p" rest oq "[]" "[]"]
  have "parseQuotedStringLiteral_loop x oq [] [] (advance_to oq (lits @ cq # rest) p) =
          Inr (concat (map (lit_text x) lits), [], cq, advance_to cq rest p)"
    by simp
  with rd wf(3) Label show ?thesis
    by (simp add: parseQuotedStringLiteral_def Let_def)
qed

lemma HasErrors_Nil [simp]: "\<not> HasErrors []"
  by (simp add: HasErrors_def)

lemma finishParsingBodyBlock_labels_wf:
  assumes "list_all (label_wf x) ls" and "Type ob = TokenOBrace"
    and "Unread p = concat (map label_tokens ls) @ ob # rest"
  shows "finishParsingBodyBlock_labels x ident labels labelRanges diags p =
           Inr (HeaderBreak (labels @ map (label_text x) ls) (labelRanges @ map label_range ls)
                  diags ob (advance_to ob rest p))"
  using assms
proof (induction ls arbitrary: labels labelRanges p)
  case Nil
  then have "Read p = (ob, advance_to ob rest p)" "Peek p = ob"
    by (simp_all add: Read_Cons Peek_Cons)
  with Nil show ?case
    by (subst finishParsingBodyBlock_labels.simps) (simp add: Let_def)
next
  case (Cons l ls)
  obtain oq lits cq where l: "l = Label oq lits cq" by (cases l)
  let ?rest = "concat (map label_tokens ls) @ ob # rest"
  from Cons.prems l have un: "Unread p = label_tokens l @ ?rest" and wfl: "label_wf x l"
    by simp_all
  from un l have pk: "Peek p = oq" by (simp add: Peek_Cons)
  from wfl l have oq: "Type oq = TokenOQuote" by simp
  from parseQuotedStringLiteral_label [OF wfl un]
  have pq: "parseQuotedStringLiteral x p =
      Inr (label_text x l, label_range l, [], advance_to (last (label_tokens l)) ?rest p)" .
  from Cons.prems have "list_all (label_wf x) ls" by simp
  from Cons.IH [OF this Cons.prems(2), of "advance_to (last (label_tokens l)) ?rest p"
      "labels @ [label_text x l]" "labelRanges @ [label_range l]"]
  have "finishParsingBodyBlock_labels x ident (labels @ [label_text x l])
          (labelRanges @ [label_range l]) diags (advance_to (last (label_tokens l)) ?rest p) =
        Inr (HeaderBreak (labels @ map (label_text x) (l # ls))
               (labelRanges @ map label_range (l # ls)) diags ob (advance_to ob rest p))"
    by simp
  with pk oq pq show ?case
    by (subst finishParsingBodyBlock_labels.simps) (simp add: Let_def)
qed

lemma skip_to_simps [simp]:
  "recovery (skip_to toks rest p) = recovery p"
  "EOFRange (skip_to toks rest p) = EOFRange p"
  by (simp_all add: skip_to_def)

lemma item_tokens_not_Nil [simp]: "item_tokens i \<noteq> []"
  by (cases i) simp_all

lemma ParseBody_loop_items:
  assumes parses: "\<And>i. i \<in> set items \<Longrightarrow> is_block i \<Longrightarrow> block_parses x i"
    and wf: "list_all (item_wf x) items"
    and e: "end \<noteq> TokenIdent" "end \<noteq> TokenNewline"
    and un: "Unread p = items_tokens items @ rest"
    and fuel: "length (Unread p) < fuel"
  shows "\<exists>fuel'. length rest < fuel'
           \<and> ParseBody_loop x fuel end attrs blocks diags p =
               ParseBody_loop x fuel' end attrs (blocks @ items_blocks x items) diags
                 (skip_to (items_tokens items) rest p)"
  using assms
proof (induction items arbitrary: fuel p blocks)
  case Nil
  then have "Unread p = rest" by (simp add: items_tokens_def)
  with Nil.prems show ?case
    by (intro exI [of _ fuel]) (simp add: items_tokens_def items_blocks_def skip_to_def)
next
  case (Cons i items)
  from Cons.prems(6) obtain f where f: "fuel = Suc f" by (cases fuel) auto
  let ?tail = "items_tokens items @ rest"
  from Cons.prems(5) have un: "Unread p = item_tokens i @ ?tail"
    by (simp add: items_tokens_def)
  from Cons.prems(2) have wfi: "item_wf x i" and wfs: "list_all (item_wf x) items" by simp_all
  have parses': "\<And>j. j \<in> set items \<Longrightarrow> is_block j \<Longrightarrow> block_parses x j"
    using Cons.prems(1) by simp
  have last_eq: "skip_to (items_tokens (i # items)) rest p
      = skip_to (items_tokens items) rest (advance_to (last (item_tokens i)) ?tail p)"
    by (simp add: skip_to_def items_tokens_def)
  show ?case
  proof (cases i)
    case (NewlineItem t)
    from un NewlineItem have rd: "Read p = (t, advance_to t ?tail p)" and pk: "Peek p = t"
      by (simp_all add: Read_Cons Peek_Cons)
    from wfi NewlineItem have ty: "Type t = TokenNewline" by simp
    from Cons.prems(6) un NewlineItem f have "length (Unread (advance_to t ?tail p)) < f"
      by simp
    from Cons.IH [OF parses' wfs Cons.prems(3,4) _ this, of blocks]
    obtain fuel' where fuel': "length rest < fuel'"
      and eq: "ParseBody_loop x f end attrs blocks diags (advance_to t ?tail p) =
               ParseBody_loop x fuel' end attrs (blocks @ items_blocks x items) diags
                 (skip_to (items_tokens items) rest (advance_to t ?tail p))"
      by auto
    have "ParseBody_loop x fuel end attrs blocks diags p =
            ParseBody_loop x f end attrs blocks diags (advance_to t ?tail p)"
      using pk ty rd Cons.prems(4) by (simp add: f ParseBody_loop.simps)
    with eq fuel' last_eq NewlineItem show ?thesis
      by (intro exI [of _ fuel']) (simp add: items_blocks_def)
  next
    case (BlockItem ident ls ob its cb)
    then have blk: "is_block i" by (simp add: is_block_def)
    from un BlockItem have pk: "Peek p = ident" by (simp add: Peek_Cons)
    from wfi BlockItem have ty: "Type ident = TokenIdent" by simp
    let ?p1 = "advance_to (last (item_tokens i)) ?tail p"
    from Cons.prems(6) f have "length (Unread p) \<le> f" by simp
    with Cons.prems(1) [of i] blk un
    have item: "ParseBodyItem x f p = Some (Inr (Some (NodeBlock (hd (item_blocks x i))), [], ?p1))"
      by (simp add: block_parses_def)
    from Cons.prems(6) un f have "length (Unread ?p1) < f"
      by (cases "item_tokens i") simp_all
    from Cons.IH [OF parses' wfs Cons.prems(3,4) _ this, of "blocks @ item_blocks x i"]
    obtain fuel' where fuel': "length rest < fuel'"
      and eq: "ParseBody_loop x f end attrs (blocks @ item_blocks x i) diags ?p1 =
               ParseBody_loop x fuel' end attrs ((blocks @ item_blocks x i) @ items_blocks x items) diags
                 (skip_to (items_tokens items) rest ?p1)"
      by auto
    have one: "item_blocks x i = [hd (item_blocks x i)]"
      using BlockItem by simp
    have "ParseBody_loop x fuel end attrs blocks diags p =
            ParseBody_loop x f end attrs (blocks @ item_blocks x i) diags ?p1"
      using pk ty item Cons.prems(3) one
      by (simp add: f ParseBody_loop.simps ParseBody_item_def)
    with eq fuel' last_eq show ?thesis
      by (intro exI [of _ fuel']) (simp add: items_blocks_def)
  qed
qed

lemma skip_to_Unread: "Unread p = toks @ rest \<Longrightarrow> Unread (skip_to toks rest p) = rest"
  by (simp add: skip_to_def)

lemma advance_to_skip_to [simp]: "advance_to t r (skip_to toks r' p) = advance_to t r p"
  by (simp add: skip_to_def)

lemma labels_head_type:
  assumes "list_all (label_wf x) ls" and "Type ob = TokenOBrace"
  shows "Type (hd (concat (map label_tokens ls) @ ob # r)) = TokenOQuote
         \<or> Type (hd (concat (map label_tokens ls) @ ob # r)) = TokenOBrace"
proof (cases ls)
  case Nil
  with assms show ?thesis by simp
next
  case (Cons l ls')
  with assms show ?thesis by (cases l) simp
qed

lemma Peek_hd: "Unread p = ts \<Longrightarrow> ts \<noteq> [] \<Longrightarrow> Peek p = hd ts"
  by (cases ts) (simp_all add: Peek_def)

lemma ParseBody_loop_at_end:
  assumes "Unread p = t # rest" and "Type t = end"
  shows "ParseBody_loop x (Suc fuel) end attrs blocks diags p =
           Some (Inr (attrs, blocks, diags, Range t, advance_to t rest p))"
  using assms by (simp add: ParseBody_loop.simps Peek_Cons Read_Cons NextRange_def)

lemma block_parses_wf: "item_wf x i \<Longrightarrow> is_block i \<Longrightarrow> block_parses x i"
proof (induction i)
  case (NewlineItem t)
  then show ?case by (simp add: is_block_def)
next
  case (BlockItem ident ls ob its cb)
  from BlockItem.prems have wf: "Type ident = TokenIdent" "list_all (label_wf x) ls"
      "Type ob = TokenOBrace" "list_all (item_wf x) its" "Type cb = TokenCBrace"
    by simp_all
  have parses: "\<And>j. j \<in> set its \<Longrightarrow> is_block j \<Longrightarrow> block_parses x j"
    using BlockItem.IH wf(4) by (simp add: list_all_iff)
  let ?i = "BlockItem ident ls ob its cb"
  let ?blocks = "items_blocks x its"
  let ?body = "MkBody Map.empty ?blocks (RangeBetween (Range ob) (Range cb))
                 \<lparr> Filename = Filename (Range cb), Start = End (Range cb), End = End (Range cb) \<rparr>"
  let ?block = "MkBlock (Bytes ident) (map (label_text x) ls) (Some ?body) (Range ident)
                  (map label_range ls) (Range ob) (Range cb)"
  show ?case
    unfolding block_parses_def
  proof (intro allI impI)
    fix fuel and p :: parser and rest
    assume un: "Unread p = item_tokens ?i @ rest"
      and len: "length (Unread p) \<le> fuel"
    let ?after_ob = "items_tokens its @ cb # rest"
    let ?after_ident = "concat (map label_tokens ls) @ ob # ?after_ob"
    let ?p1 = "advance_to ident ?after_ident p"
    let ?p2 = "advance_to ob ?after_ob p"
    from un have un0: "Unread p = ident # ?after_ident"
      by (simp add: items_tokens_def)
    then have rd: "Read p = (ident, ?p1)" by (rule Read_Cons)
    have pk1: "Peek ?p1 = hd ?after_ident"
      by (rule Peek_hd) simp_all
    from labels_head_type [OF wf(2,3), of ?after_ob] pk1
    have next_ty: "Type (Peek ?p1) = TokenOQuote \<or> Type (Peek ?p1) = TokenOBrace"
      by simp
    have item: "ParseBodyItem x fuel p = finishParsingBodyBlock x fuel ident ?p1"
      using rd wf(1) next_ty by (auto simp: ParseBodyItem.simps Let_def)
    have hdr: "finishParsingBodyBlock_labels x ident [] [] [] ?p1 =
        Inr (HeaderBreak (map (label_text x) ls) (map label_range ls) [] ob ?p2)"
      using finishParsingBodyBlock_labels_wf [OF wf(2,3), of ?p1 ?after_ob ident "[]" "[]" "[]"]
      by simp
    from len un0 have "length (Unread ?p2) < fuel" by simp
    from ParseBody_loop_items [OF parses wf(4) _ _ _ this, of TokenCBrace "cb # rest" Map.empty "[]" "[]"]
    obtain fuel' where fuel': "length (cb # rest) < fuel'"
      and loop: "ParseBody_loop x fuel TokenCBrace Map.empty [] [] ?p2 =
                 ParseBody_loop x fuel' TokenCBrace Map.empty ?blocks []
                   (skip_to (items_tokens its) (cb # rest) ?p2)"
      by auto
    from fuel' obtain f where f: "fuel' = Suc f" by (cases fuel') auto
    have "Unread (skip_to (items_tokens its) (cb # rest) ?p2) = cb # rest"
      by (rule skip_to_Unread) simp
    from ParseBody_loop_at_end [OF this wf(5), of x f Map.empty ?blocks "[]"] loop f
    have loop': "ParseBody_loop x fuel TokenCBrace Map.empty [] [] ?p2 =
        Some (Inr (Map.empty, ?blocks, [], Range cb, advance_to cb rest p))"
      by simp
    have body: "ParseBody x fuel TokenCBrace ?p2 = Some (Inr (?body, [], advance_to cb rest p))"
      using loop' by (simp add: ParseBody.simps)
    have "finishParsingBodyBlock x fuel ident ?p1 =
        Some (Inr (Some (NodeBlock ?block), [], advance_to cb rest p))"
      using hdr body by (simp add: finishParsingBodyBlock.simps)
    with item show "ParseBodyItem x fuel p =
          Some (Inr (Some (NodeBlock (hd (item_blocks x ?i))), [],
                     advance_to (last (item_tokens ?i)) rest p))"
      by (simp add: items_blocks_def)
  qed
qed

text \<open>A body of well-formed items up to its end token.\<close>

lemma ParseBody_items:
  assumes wf: "list_all (item_wf x) items"
    and e: "end \<noteq> TokenIdent" "end \<noteq> TokenNewline"
    and un: "Unread p = items_tokens items @ t # rest"
    and t: "Type t = end"
    and fuel: "length (Unread p) < fuel"
  shows "ParseBody x fuel end p =
           Some (Inr (MkBody Map.empty (items_blocks x items)
                        (RangeBetween (PrevRange p) (Range t))
                        \<lparr> Filename = Filename (Range t), Start = End (Range t), End = End (Range t) \<rparr>,
                      [], advance_to t rest p))"
proof -
  have parses: "\<And>j. j \<in> set items \<Longrightarrow> is_block j \<Longrightarrow> block_parses x j"
    using wf by (simp add: list_all_iff block_parses_wf)
  from ParseBody_loop_items [OF parses wf e un fuel, of Map.empty "[]" "[]"]
  obtain fuel' where fuel': "length (t # rest) < fuel'"
    and loop: "ParseBody_loop x fuel end Map.empty [] [] p =
               ParseBody_loop x fuel' end Map.empty (items_blocks x items) []
                 (skip_to (items_tokens items) (t # rest) p)"
    by auto
  from fuel' obtain f where f: "fuel' = Suc f" by (cases fuel') auto
  have "Unread (skip_to (items_tokens items) (t # rest) p) = t # rest"
    using un by (rule skip_to_Unread)
  from ParseBody_loop_at_end [OF this t, of x f Map.empty "items_blocks x items" "[]"] loop f
  have "ParseBody_loop x fuel end Map.empty [] [] p =
        Some (Inr (Map.empty, items_blocks x items, [], Range t, advance_to t rest p))"
    by simp
  then show ?thesis by (simp add: ParseBody.simps)
qed

lemma ParseBody_loop_at_eof:
  assumes "Unread p = []"
  shows "ParseBody_loop x (Suc fuel) TokenEOF attrs blocks diags p =
           Some (Inr (attrs, blocks, diags, EOFRange p,
                      p\<lparr> Unread := [], LastRead := Some (EOFRange p) \<rparr>))"
  using assms by (simp add: ParseBody_loop.simps Peek_def Read_def NextRange_def)

lemma ParseBody_items_eof:
  assumes wf: "list_all (item_wf x) items"
    and un: "Unread p = items_tokens items"
    and fuel: "length (Unread p) < fuel"
  shows "ParseBody x fuel TokenEOF p =
           Some (Inr (MkBody Map.empty (items_blocks x items)
                        (RangeBetween (PrevRange p) (EOFRange p))
                        \<lparr> Filename = Filename (EOFRange p), Start = End (EOFRange p),
                          End = End (EOFRange p) \<rparr>,
                      [], p\<lparr> Unread := [], LastRead := Some (EOFRange p) \<rparr>))"
proof -
  have parses: "\<And>j. j \<in> set items \<Longrightarrow> is_block j \<Longrightarrow> block_parses x j"
    using wf by (simp add: list_all_iff block_parses_wf)
  from un have un': "Unread p = items_tokens items @ []" by simp
  from ParseBody_loop_items [OF parses wf _ _ un' fuel, of TokenEOF Map.empty "[]" "[]"]
  obtain fuel' where fuel': "0 < fuel'"
    and loop: "ParseBody_loop x fuel TokenEOF Map.empty [] [] p =
               ParseBody_loop x fuel' TokenEOF Map.empty (items_blocks x items) []
                 (skip_to (items_tokens items) [] p)"
    by auto
  from fuel' obtain f where f: "fuel' = Suc f" by (cases fuel') auto
  let ?q = "skip_to (items_tokens items) [] p"
  have q: "Unread ?q = []"
    using un' by (rule skip_to_Unread)
  have "?q\<lparr> Unread := [], LastRead := Some (EOFRange ?q) \<rparr>
          = p\<lparr> Unread := [], LastRead := Some (EOFRange p) \<rparr>"
    by (simp add: skip_to_def advance_to_def)
  with ParseBody_loop_at_eof [OF q, of x f Map.empty "items_blocks x items" "[]"] loop f
  have "ParseBody_loop x fuel TokenEOF Map.empty [] [] p =
        Some (Inr (Map.empty, items_blocks x items, [], EOFRange p,
                   p\<lparr> Unread := [], LastRead := Some (EOFRange p) \<rparr>))"
    by simp
  then show ?thesis by (simp add: ParseBody.simps)
qed

lemma items_blocks_length: "length (items_blocks x items) = length (filter is_block items)"
proof (induction items)
  case Nil
  show ?case by (simp add: items_blocks_def)
next
  case (Cons i items)
  then show ?case by (cases i) (simp_all add: items_blocks_def is_block_def)
qed

lemma items_blocks_TypeRange:
  "map TypeRange (items_blocks x items) = map (\<lambda>i. Range (hd (item_tokens i))) (filter is_block items)"
proof (induction items)
  case Nil
  show ?case by (simp add: items_blocks_def)
next
  case (Cons i items)
  then show ?case by (cases i) (simp_all add: items_blocks_def is_block_def)
qed

text \<open>A body with an attribute: the parser panics at the equals sign.\<close>

lemma ParseBody_attribute_panics:
  assumes wf: "list_all (item_wf x) items"
    and e: "end \<noteq> TokenIdent" "end \<noteq> TokenNewline"
    and un: "Unread p = items_tokens items @ ident # eq # rest"
    and ty: "Type ident = TokenIdent" "Type eq = TokenEqual"
    and fuel: "length (Unread p) < fuel"
  shows "ParseBody x fuel end p = Some (Inl (Panic ''attribute parsing not yet implemented''))"
proof -
  have parses: "\<And>j. j \<in> set items \<Longrightarrow> is_block j \<Longrightarrow> block_parses x j"
    using wf by (simp add: list_all_iff block_parses_wf)
  from ParseBody_loop_items [OF parses wf e un fuel, of Map.empty "[]" "[]"]
  obtain fuel' where fuel': "length (ident # eq # rest) < fuel'"
    and loop: "ParseBody_loop x fuel end Map.empty [] [] p =
               ParseBody_loop x fuel' end Map.empty (items_blocks x items) []
                 (skip_to (items_tokens items) (ident # eq # rest) p)"
    by auto
  from fuel' obtain f where f: "fuel' = Suc f" by (cases fuel') auto
  let ?q = "skip_to (items_tokens items) (ident # eq # rest) p"
  have q: "Unread ?q = ident # eq # rest"
    using un by (rule skip_to_Unread)
  then have pk: "Peek ?q = ident" and rd: "Read ?q = (ident, advance_to ident (eq # rest) ?q)"
    by (simp_all add: Peek_Cons Read_Cons)
  have "Peek (advance_to ident (eq # rest) ?q) = eq"
    by (rule Peek_Cons) simp
  with rd ty have "ParseBodyItem x f ?q = Some (Inl (Panic ''attribute parsing not yet implemented''))"
    by (simp add: ParseBodyItem.simps Let_def finishParsingBodyAttribute_def)
  with pk ty e have "ParseBody_loop x (Suc f) end Map.empty (items_blocks x items) [] ?q =
      Some (Inl (Panic ''attribute parsing not yet implemented''))"
    by (simp add: ParseBody_loop.simps)
  with loop f show ?thesis by (simp add: ParseBody.simps)
qed

section \<open>Claims about bodies\<close>

text \<open>
  C1, as amended. Attribute parsing is not implemented (\<open>finishParsingBodyAttribute\<close>
  panics), so a body that parses has no attributes. For every token stream that is a
  sequence of well-formed items (blocks and newlines, with \<open>M\<close> blocks at the top)
  followed by the terminator looked for, or by the end of the input when the terminator
  is end-of-file, \<open>ParseBody\<close> returns zero diagnostics, an empty attribute map and a block
  list of length \<open>M\<close> whose blocks are those of the items in source order, and stops after
  the terminator. It does so with more fuel than unread tokens, however deep the blocks
  nest.
\<close>

theorem ParseBody_well_formed:
  assumes wf: "list_all (item_wf x) items"
    and e: "end \<noteq> TokenIdent" "end \<noteq> TokenNewline"
    and un: "Unread p = items_tokens items @ tail"
    and tail: "(tail = [] \<and> end = TokenEOF) \<or> (tail \<noteq> [] \<and> Type (hd tail) = end)"
    and fuel: "length (Unread p) < fuel"
  shows "\<exists>body p'. ParseBody x fuel end p = Some (Inr (body, [], p'))
           \<and> Attributes body = Map.empty
           \<and> Blocks body = items_blocks x items
           \<and> length (Blocks body) = length (filter is_block items)
           \<and> map TypeRange (Blocks body) = map (\<lambda>i. Range (hd (item_tokens i))) (filter is_block items)
           \<and> Unread p' = tl tail"
proof (cases tail)
  case Nil
  with tail have eof: "end = TokenEOF" by simp
  from un Nil have "Unread p = items_tokens items" by simp
  from ParseBody_items_eof [OF wf this fuel] eof Nil show ?thesis
    by (simp add: items_blocks_length items_blocks_TypeRange)
next
  case (Cons t rest)
  with tail have t: "Type t = end" by simp
  from un Cons have "Unread p = items_tokens items @ t # rest" by simp
  from ParseBody_items [OF wf e this t fuel] Cons show ?thesis
    by (simp add: items_blocks_length items_blocks_TypeRange)
qed

theorem ParseBody_well_formed_witness:
  "list_all (item_wf sample_extern) body_sample
   \<and> length (filter is_block body_sample) = 2
   \<and> length (Unread (parser_of (items_tokens body_sample) 13)) < 11
   \<and> (\<exists>body p'.
        ParseBody sample_extern 11 TokenEOF (parser_of (items_tokens body_sample) 13)
          = Some (Inr (body, [], p'))
        \<and> Attributes body = Map.empty
        \<and> length (Blocks body) = 2
        \<and> map BlockType (Blocks body) = [''a'', ''b'']
        \<and> map TypeRange (Blocks body) = [rng 0 1, rng 5 6]
        \<and> Unread p' = [])"
proof -
  have wf: "list_all (item_wf sample_extern) body_sample"
    by (simp add: body_sample_def lit_wf_def sample_eval decodeStringLit_def
          decodeStringLit_run_def Let_def)
  have blocks: "length (filter is_block body_sample) = 2"
    by (simp add: body_sample_def is_block_def)
  have un: "Unread (parser_of (items_tokens body_sample) 13) = items_tokens body_sample @ []"
    by (simp add: parser_of_def)
  have tail: "([] = [] \<and> TokenEOF = TokenEOF) \<or> ([] \<noteq> [] \<and> Type (hd []) = TokenEOF)"
    by simp
  have fuel: "length (Unread (parser_of (items_tokens body_sample) 13)) < 11"
    by (simp add: parser_of_def body_sample_def items_tokens_def)
  from ParseBody_well_formed [OF wf _ _ un tail fuel]
  obtain body p' where
    res: "ParseBody sample_extern 11 TokenEOF (parser_of (items_tokens body_sample) 13)
            = Some (Inr (body, [], p'))"
    and attrs: "Attributes body = Map.empty"
    and bl: "Blocks body = items_blocks sample_extern body_sample"
    and len: "length (Blocks body) = length (filter is_block body_sample)"
    and rest: "Unread p' = tl []"
    by auto
  from bl have types: "map BlockType (Blocks body) = [''a'', ''b'']"
    and ranges: "map TypeRange (Blocks body) = [rng 0 1, rng 5 6]"
    by (simp_all add: body_sample_def items_blocks_def tk_def)
  from wf blocks fuel res attrs len types ranges rest show ?thesis
    by auto
qed

text \<open>
  The claim as stated fails on a body with one attribute, \<open>a = 1\<close>: \<open>ParseBody\<close> returns no
  body, no diagnostics and no attribute map, it panics.
\<close>

theorem ParseBody_attribute_counterexample:
  "ParseBody sample_extern 5 TokenEOF
     (parser_of [tk TokenIdent ''a'' 0, tk TokenEqual ''='' 2, tk (TokenOther 0) ''1'' 4,
                 tk TokenNewline [CHR 0x0A] 5] 6)
   = Some (Inl (Panic ''attribute parsing not yet implemented''))"
  by (simp add: parser_eval sample_eval numeral_nat)

text \<open>
  C3, as amended. Parsing \<open>a = 1\<close> followed by \<open>a = 2\<close> does not get to the second
  definition: like every body whose first items are well-formed blocks and newlines and
  whose next item is a name followed by an equals sign, it panics. The branch of
  \<open>ParseBody\<close> for an attribute item does what the claim says: for a name that the
  attribute map holds already it appends exactly one diagnostic "Attribute redefined",
  whose subject is the name range of the new attribute and whose detail names the range
  of the existing one, and keeps the map as it is; a new name is added to the map
  without a diagnostic.
\<close>

theorem ParseBody_attribute_redefined:
  "(attrs (Name a) = Some existing \<longrightarrow>
      ParseBody_item x (Some (NodeAttribute a)) attrs blocks diags =
        (attrs, blocks,
         diags @ [\<lparr> Severity = DiagError,
                    Summary = ''Attribute redefined'',
                    Detail = ''The attribute '' @ Sprintf_q x (Name a)
                             @ '' was already defined at '' @ Range_String x (NameRange existing)
                             @ ''. Each attribute may be defined only once.'',
                    Subject = Some (NameRange a),
                    Context = None \<rparr>]))
   \<and> (attrs (Name a) = None \<longrightarrow>
      ParseBody_item x (Some (NodeAttribute a)) attrs blocks diags =
        (attrs(Name a \<mapsto> a), blocks, diags))
   \<and> (list_all (item_wf x) items \<and> end \<noteq> TokenIdent \<and> end \<noteq> TokenNewline
        \<and> Unread p = items_tokens items @ ident # eq # rest
        \<and> Type ident = TokenIdent \<and> Type eq = TokenEqual
        \<and> length (Unread p) < fuel \<longrightarrow>
      ParseBody x fuel end p = Some (Inl (Panic ''attribute parsing not yet implemented'')))"
proof (intro conjI impI)
  assume "attrs (Name a) = Some existing"
  then show "ParseBody_item x (Some (NodeAttribute a)) attrs blocks diags =
        (attrs, blocks,
         diags @ [\<lparr> Severity = DiagError,
                    Summary = ''Attribute redefined'',
                    Detail = ''The attribute '' @ Sprintf_q x (Name a)
                             @ '' was already defined at '' @ Range_String x (NameRange existing)
                             @ ''. Each attribute may be defined only once.'',
                    Subject = Some (NameRange a),
                    Context = None \<rparr>])"
    by (simp add: ParseBody_item_def)
next
  assume "attrs (Name a) = None"
  then show "ParseBody_item x (Some (NodeAttribute a)) attrs blocks diags =
        (attrs(Name a \<mapsto> a), blocks, diags)"
    by (simp add: ParseBody_item_def)
next
  assume h: "list_all (item_wf x) items \<and> end \<noteq> TokenIdent \<and> end \<noteq> TokenNewline
        \<and> Unread p = items_tokens items @ ident # eq # rest
        \<and> Type ident = TokenIdent \<and> Type eq = TokenEqual
        \<and> length (Unread p) < fuel"
  then have wf: "list_all (item_wf x) items" and e: "end \<noteq> TokenIdent" "end \<noteq> TokenNewline"
    and un: "Unread p = items_tokens items @ ident # eq # rest"
    and ty: "Type ident = TokenIdent" "Type eq = TokenEqual"
    and fuel: "length (Unread p) < fuel"
    by blast+
  from ParseBody_attribute_panics [OF wf e un ty fuel]
  show "ParseBody x fuel end p = Some (Inl (Panic ''attribute parsing not yet implemented''))" .
qed

theorem ParseBody_attribute_redefined_witness:
  "ParseBody_item sample_extern (Some (NodeAttribute attr_second)) [''a'' \<mapsto> attr_first] [] [] =
     ([''a'' \<mapsto> attr_first], [],
      [\<lparr> Severity = DiagError,
         Summary = ''Attribute redefined'',
         Detail = ''The attribute '' @ [CHR 0x22] @ ''a'' @ [CHR 0x22]
                  @ '' was already defined at f. Each attribute may be defined only once.'',
         Subject = Some (rng 6 7),
         Context = None \<rparr>])
   \<and> ParseBody_item sample_extern (Some (NodeAttribute attr_first)) Map.empty [] [] =
       ([''a'' \<mapsto> attr_first], [], [])
   \<and> ParseBody sample_extern 9 TokenEOF attrs_sample =
       Some (Inl (Panic ''attribute parsing not yet implemented''))"
proof -
  have un: "Unread attrs_sample =
      items_tokens [] @ tk TokenIdent ''a'' 0 # tk TokenEqual ''='' 2 #
        [tk (TokenOther 0) ''1'' 4, tk TokenNewline [CHR 0x0A] 5,
         tk TokenIdent ''a'' 6, tk TokenEqual ''='' 8, tk (TokenOther 0) ''2'' 10,
         tk TokenNewline [CHR 0x0A] 11]"
    by (simp add: attrs_sample_def parser_of_def items_tokens_def)
  have fuel: "length (Unread attrs_sample) < 9"
    by (simp add: attrs_sample_def parser_of_def)
  note inst1 = ParseBody_attribute_redefined
    [where attrs = "[''a'' \<mapsto> attr_first]" and a = attr_second and existing = attr_first
       and x = sample_extern and blocks = "[]" and diags = "[]"
       and items = "[]" and ?end = TokenEOF and p = attrs_sample
       and ident = "tk TokenIdent ''a'' 0" and eq = "tk TokenEqual ''='' 2"
       and rest = "[tk (TokenOther 0) ''1'' 4, tk TokenNewline [CHR 0x0A] 5,
         tk TokenIdent ''a'' 6, tk TokenEqual ''='' 8, tk (TokenOther 0) ''2'' 10,
         tk TokenNewline [CHR 0x0A] 11]"
       and fuel = 9]
  note inst2 = ParseBody_attribute_redefined
    [where attrs = Map.empty and a = attr_first and x = sample_extern and blocks = "[]"
       and diags = "[]"]
  from inst1 have dup:
    "ParseBody_item sample_extern (Some (NodeAttribute attr_second)) [''a'' \<mapsto> attr_first] [] [] =
     ([''a'' \<mapsto> attr_first], [],
      [\<lparr> Severity = DiagError,
         Summary = ''Attribute redefined'',
         Detail = ''The attribute '' @ [CHR 0x22] @ ''a'' @ [CHR 0x22]
                  @ '' was already defined at f. Each attribute may be defined only once.'',
         Subject = Some (rng 6 7),
         Context = None \<rparr>])"
    by (simp add: attr_first_def attr_second_def sample_extern_def rng_def)
  from inst2 have new:
    "ParseBody_item sample_extern (Some (NodeAttribute attr_first)) Map.empty [] [] =
       ([''a'' \<mapsto> attr_first], [], [])"
    by (simp add: attr_first_def)
  from inst1 un fuel have panic:
    "ParseBody sample_extern 9 TokenEOF attrs_sample =
       Some (Inl (Panic ''attribute parsing not yet implemented''))"
    by (simp add: tk_def)
  from dup new panic show ?thesis by simp
qed

text \<open>The claim as stated fails on its own input: parsing \<open>a = 1\<close>, \<open>a = 2\<close> panics.\<close>

theorem ParseBody_redefined_counterexample:
  "ParseBody sample_extern 9 TokenEOF attrs_sample =
     Some (Inl (Panic ''attribute parsing not yet implemented''))"
  by (simp add: attrs_sample_def parser_eval sample_eval numeral_nat)

section \<open>Template sequences in quoted literals\<close>

lemma skip_to_Cons:
  "skip_to (t # ts) rest p = skip_to ts rest (advance_to t (ts @ rest) p)"
  by (simp add: skip_to_def)

lemma recover_loop_template_step:
  assumes "Unread p = t # rest"
  shows "recover_loop TokenTemplateSeqEnd nest p =
     (if Type t = TokenTemplateInterp \<or> Type t = TokenTemplateControl then
        recover_loop TokenTemplateSeqEnd (nest + 1) (advance_to t rest p)
      else if Type t = TokenTemplateSeqEnd then
        (if nest < 1 then advance_to t rest p
         else recover_loop TokenTemplateSeqEnd (nest - 1) (advance_to t rest p))
      else if Type t = TokenEOF then advance_to t rest p
      else recover_loop TokenTemplateSeqEnd nest (advance_to t rest p))"
  by (subst recover_loop.simps) (auto simp: Let_def Read_Cons [OF assms])

lemma recover_loop_template_balanced:
  assumes "template_balanced_from k ts" and "Unread p = ts @ rest"
  shows "recover_loop TokenTemplateSeqEnd (n + k) p =
           recover_loop TokenTemplateSeqEnd n (skip_to ts rest p)"
  using assms
proof (induction ts arbitrary: k p)
  case Nil
  then show ?case by (simp add: skip_to_def)
next
  case (Cons t ts)
  from Cons.prems(2) have un: "Unread p = t # (ts @ rest)" by simp
  let ?p1 = "advance_to t (ts @ rest) p"
  have un1: "Unread ?p1 = ts @ rest" by simp
  consider (opener) "Type t = TokenTemplateInterp \<or> Type t = TokenTemplateControl"
    | (closer) "Type t = TokenTemplateSeqEnd"
    | (plain) "Type t \<noteq> TokenTemplateInterp" "Type t \<noteq> TokenTemplateControl"
        "Type t \<noteq> TokenTemplateSeqEnd"
    by blast
  then show ?case
  proof cases
    case opener
    with Cons.prems(1) have "template_balanced_from (Suc k) ts" by simp
    from Cons.IH [OF this un1]
    have "recover_loop TokenTemplateSeqEnd (n + Suc k) ?p1 =
            recover_loop TokenTemplateSeqEnd n (skip_to ts rest ?p1)" .
    with opener show ?thesis
      by (subst recover_loop_template_step [OF un]) (simp add: skip_to_Cons)
  next
    case closer
    with Cons.prems(1) have k: "0 < k" and bal: "template_balanced_from (k - 1) ts" by simp_all
    from Cons.IH [OF bal un1]
    have "recover_loop TokenTemplateSeqEnd (n + (k - 1)) ?p1 =
            recover_loop TokenTemplateSeqEnd n (skip_to ts rest ?p1)" .
    moreover from k have "n + k - 1 = n + (k - 1)" by simp
    ultimately show ?thesis
      using closer k
      by (subst recover_loop_template_step [OF un]) (simp add: skip_to_Cons)
  next
    case plain
    with Cons.prems(1) have ne: "Type t \<noteq> TokenEOF" and bal: "template_balanced_from k ts"
      by (simp_all split: if_splits)
    from Cons.IH [OF bal un1]
    have "recover_loop TokenTemplateSeqEnd (n + k) ?p1 =
            recover_loop TokenTemplateSeqEnd n (skip_to ts rest ?p1)" .
    with plain ne show ?thesis
      by (subst recover_loop_template_step [OF un]) (simp add: skip_to_Cons)
  qed
qed

text \<open>\<open>recover\<close> stops just after the matching end of the template sequence.\<close>

lemma recover_template_balanced:
  assumes "template_balanced inner" and "Type se = TokenTemplateSeqEnd"
    and "Unread p = inner @ se # rest"
  shows "recover TokenTemplateSeqEnd p = (advance_to se rest p)\<lparr> recovery := True \<rparr>"
proof -
  let ?p = "p\<lparr> recovery := True \<rparr>"
  let ?q = "skip_to inner (se # rest) ?p"
  from assms(3) have un: "Unread ?p = inner @ se # rest" by simp
  from assms(1) have "template_balanced_from 0 inner" by (simp add: template_balanced_def)
  from recover_loop_template_balanced [OF this un, of 0]
  have "recover_loop TokenTemplateSeqEnd 0 ?p = recover_loop TokenTemplateSeqEnd 0 ?q" by simp
  moreover have "Unread ?q = se # rest"
    using un by (rule skip_to_Unread)
  from recover_loop_template_step [OF this, of 0] assms(2)
  have "recover_loop TokenTemplateSeqEnd 0 ?q = advance_to se rest ?q" by simp
  moreover have "advance_to se rest ?q = (advance_to se rest p)\<lparr> recovery := True \<rparr>"
    by (simp add: advance_to_def skip_to_def)
  ultimately show ?thesis by (simp add: recover_def)
qed

lemma parseQuotedStringLiteral_loop_lits_prefix:
  assumes "list_all (lit_wf x) lits" and "Unread p = lits @ rest"
  shows "parseQuotedStringLiteral_loop x oq ret diags p =
           parseQuotedStringLiteral_loop x oq (ret @ concat (map (lit_text x) lits)) diags
             (skip_to lits rest p)"
  using assms
proof (induction lits arbitrary: ret p)
  case Nil
  then show ?case by (simp add: skip_to_def)
next
  case (Cons t lits)
  from Cons.prems have rd: "Read p = (t, advance_to t (lits @ rest) p)"
    by (simp add: Read_Cons)
  from Cons.prems obtain s where dec: "decodeStringLit x t = Inr (s, [])" and ty: "Type t = TokenQuotedLit"
    by (auto simp: lit_wf_def split: sum.splits)
  have lt: "lit_text x t = s" using dec by (simp add: lit_text_def)
  from Cons.prems have "list_all (lit_wf x) lits" by simp
  from Cons.IH [OF this, of "advance_to t (lits @ rest) p" "ret @ s"]
  have "parseQuotedStringLiteral_loop x oq (ret @ s) diags (advance_to t (lits @ rest) p) =
          parseQuotedStringLiteral_loop x oq ((ret @ s) @ concat (map (lit_text x) lits)) diags
            (skip_to lits rest (advance_to t (lits @ rest) p))"
    by simp
  with rd dec ty lt show ?case
    by (subst parseQuotedStringLiteral_loop.simps) (simp add: Let_def skip_to_Cons)
qed

text \<open>
  A label with one template sequence in it: the literal parser reports the sequence, skips
  it, and goes on to the closing quote.
\<close>

lemma parseQuotedStringLiteral_template:
  assumes oq: "Type oq = TokenOQuote"
    and lits1: "list_all (lit_wf x) lits1"
    and tmpl: "Type tmpl = TokenTemplateInterp \<or> Type tmpl = TokenTemplateControl"
    and inner: "template_balanced inner"
    and se: "Type se = TokenTemplateSeqEnd"
    and lits2: "list_all (lit_wf x) lits2"
    and cq: "Type cq = TokenCQuote"
    and un: "Unread p = oq # lits1 @ tmpl # inner @ se # lits2 @ cq # rest"
  shows "parseQuotedStringLiteral x p =
           Inr (concat (map (lit_text x) (lits1 @ lits2)),
                RangeBetween (Range oq) (Range cq),
                [template_diag x oq tmpl],
                (advance_to cq rest p)\<lparr> recovery := True \<rparr>)"
proof -
  let ?r1 = "lits1 @ tmpl # inner @ se # lits2 @ cq # rest"
  let ?r2 = "tmpl # inner @ se # lits2 @ cq # rest"
  let ?r3 = "inner @ se # lits2 @ cq # rest"
  let ?r4 = "lits2 @ cq # rest"
  let ?p1 = "advance_to oq ?r1 p"
  let ?p2 = "skip_to lits1 ?r2 ?p1"
  let ?p3 = "advance_to tmpl ?r3 ?p2"
  let ?p4 = "(advance_to se ?r4 ?p3)\<lparr> recovery := True \<rparr>"
  let ?t1 = "concat (map (lit_text x) lits1)"
  from un have rd: "Read p = (oq, ?p1)" by (simp add: Read_Cons)
  have s1: "parseQuotedStringLiteral_loop x oq [] [] ?p1 =
              parseQuotedStringLiteral_loop x oq ?t1 [] ?p2"
    using parseQuotedStringLiteral_loop_lits_prefix [OF lits1, of ?p1 ?r2 oq "[]" "[]"] by simp
  have un2: "Unread ?p2 = tmpl # ?r3"
    by (rule skip_to_Unread) simp
  then have rd2: "Read ?p2 = (tmpl, ?p3)" by (rule Read_Cons)
  have rec: "recover TokenTemplateSeqEnd ?p3 = ?p4"
    by (rule recover_template_balanced [OF inner se]) simp
  have s2: "parseQuotedStringLiteral_loop x oq ?t1 [] ?p2 =
              parseQuotedStringLiteral_loop x oq ?t1 [template_diag x oq tmpl] ?p4"
    using tmpl rd2 rec
    by (subst parseQuotedStringLiteral_loop.simps) (auto simp: Let_def)
  have un4: "Unread ?p4 = lits2 @ cq # rest" by simp
  have s3: "parseQuotedStringLiteral_loop x oq ?t1 [template_diag x oq tmpl] ?p4 =
              Inr (?t1 @ concat (map (lit_text x) lits2), [template_diag x oq tmpl], cq,
                   advance_to cq rest ?p4)"
    by (rule parseQuotedStringLiteral_loop_lits [OF lits2 cq un4])
  have fin: "advance_to cq rest ?p4 = (advance_to cq rest p)\<lparr> recovery := True \<rparr>"
    by (simp add: advance_to_def skip_to_def)
  from rd oq s1 s2 s3 fin show ?thesis
    by (simp add: parseQuotedStringLiteral_def Let_def)
qed

section \<open>Body-item recovery over the rest of a block\<close>

lemma pop_to_top:
  "wanted t \<Longrightarrow> pop_to wanted (opn @ [t]) = opn @ [t]"
  by (subst pop_to.simps) simp

lemma recoverAfterBodyItem_loop_step:
  assumes "Unread p = t # rest"
  shows "recoverAfterBodyItem_loop opn p =
     (if Type t = TokenNewline then
        (if length opn = 0 then advance_to t rest p
         else recoverAfterBodyItem_loop opn (advance_to t rest p))
      else if Type t = TokenEOF then advance_to t rest p
      else if Type t = TokenOBrace \<or> Type t = TokenOBrack \<or> Type t = TokenOParen
              \<or> Type t = TokenOQuote \<or> Type t = TokenOHeredoc
              \<or> Type t = TokenTemplateInterp \<or> Type t = TokenTemplateControl then
        recoverAfterBodyItem_loop (opn @ [Type t]) (advance_to t rest p)
      else if Type t = TokenCBrace \<or> Type t = TokenCBrack \<or> Type t = TokenCParen
              \<or> Type t = TokenCQuote \<or> Type t = TokenCHeredoc then
        (let opener = oppositeBracket (Type t);
             opn = pop_to (\<lambda>t. t = opener) opn;
             opn = (if length opn > 0 then take (length opn - 1) opn else opn)
         in recoverAfterBodyItem_loop opn (advance_to t rest p))
      else if Type t = TokenTemplateSeqEnd then
        (let opn = pop_to (\<lambda>t. t = TokenTemplateInterp \<or> t = TokenTemplateControl) opn;
             opn = (if length opn > 0 then take (length opn - 1) opn else opn)
         in recoverAfterBodyItem_loop opn (advance_to t rest p))
      else recoverAfterBodyItem_loop opn (advance_to t rest p))"
  by (subst recoverAfterBodyItem_loop.simps) (simp add: Let_def Read_Cons [OF assms])

lemma skipsD:
  "skips opn ts \<Longrightarrow> Unread p = ts @ rest
     \<Longrightarrow> recoverAfterBodyItem_loop opn p = recoverAfterBodyItem_loop opn (skip_to ts rest p)"
  by (simp add: skips_def)

lemma skip_to_append:
  "skip_to (a @ b) rest p = skip_to b rest (skip_to a (b @ rest) p)"
  by (simp add: skip_to_def)

lemma skips_Nil: "skips opn []"
  by (simp add: skips_def skip_to_def)

lemma skips_append:
  assumes "skips opn a" and "skips opn b"
  shows "skips opn (a @ b)"
  unfolding skips_def
proof (intro allI impI)
  fix p :: parser and rest
  assume un: "Unread p = (a @ b) @ rest"
  then have un1: "Unread p = a @ (b @ rest)" by simp
  have un2: "Unread (skip_to a (b @ rest) p) = b @ rest"
    using un1 by (rule skip_to_Unread)
  from skipsD [OF assms(1) un1] skipsD [OF assms(2) un2]
  show "recoverAfterBodyItem_loop opn p = recoverAfterBodyItem_loop opn (skip_to (a @ b) rest p)"
    by (simp add: skip_to_append)
qed

lemma skips_concat:
  "(\<And>ts. ts \<in> set tss \<Longrightarrow> skips opn ts) \<Longrightarrow> skips opn (concat tss)"
  by (induction tss) (simp_all add: skips_Nil skips_append)

lemma skips_single:
  assumes "\<And>(p :: parser) rest. Unread p = t # rest
             \<Longrightarrow> recoverAfterBodyItem_loop opn p =
                 recoverAfterBodyItem_loop opn (advance_to t rest p)"
  shows "skips opn [t]"
  unfolding skips_def using assms by (simp add: skip_to_def)

lemma skips_ident: "Type t = TokenIdent \<Longrightarrow> skips opn [t]"
  by (rule skips_single) (simp add: recoverAfterBodyItem_loop_step)

lemma skips_lit: "Type t = TokenQuotedLit \<Longrightarrow> skips opn [t]"
  by (rule skips_single) (simp add: recoverAfterBodyItem_loop_step)

lemma skips_newline: "Type t = TokenNewline \<Longrightarrow> opn \<noteq> [] \<Longrightarrow> skips opn [t]"
  by (rule skips_single) (simp add: recoverAfterBodyItem_loop_step)

lemma skips_bracket:
  assumes inside: "skips (opn @ [Type ob]) ts"
    and pair: "(Type ob = TokenOBrace \<and> Type cb = TokenCBrace)
               \<or> (Type ob = TokenOQuote \<and> Type cb = TokenCQuote)"
  shows "skips opn (ob # ts @ [cb])"
  unfolding skips_def
proof (intro allI impI)
  fix p :: parser and rest
  assume un: "Unread p = (ob # ts @ [cb]) @ rest"
  let ?p1 = "advance_to ob (ts @ cb # rest) p"
  let ?p2 = "skip_to ts (cb # rest) ?p1"
  from un have un0: "Unread p = ob # (ts @ cb # rest)" by simp
  have un1: "Unread ?p1 = ts @ (cb # rest)" by simp
  have un2: "Unread ?p2 = cb # rest"
    using un1 by (rule skip_to_Unread)
  from pair have ob_ty: "Type ob = TokenOBrace \<or> Type ob = TokenOQuote" by blast
  have a: "recoverAfterBodyItem_loop opn p = recoverAfterBodyItem_loop (opn @ [Type ob]) ?p1"
    using ob_ty
  proof
    assume "Type ob = TokenOBrace"
    then show ?thesis by (simp add: recoverAfterBodyItem_loop_step [OF un0])
  next
    assume "Type ob = TokenOQuote"
    then show ?thesis by (simp add: recoverAfterBodyItem_loop_step [OF un0])
  qed
  have b: "recoverAfterBodyItem_loop (opn @ [Type ob]) ?p1 =
             recoverAfterBodyItem_loop (opn @ [Type ob]) ?p2"
    by (rule skipsD [OF inside un1])
  have c: "recoverAfterBodyItem_loop (opn @ [Type ob]) ?p2 =
             recoverAfterBodyItem_loop opn (advance_to cb rest ?p2)"
    using pair
  proof
    assume "Type ob = TokenOBrace \<and> Type cb = TokenCBrace"
    then show ?thesis
      by (simp add: recoverAfterBodyItem_loop_step [OF un2] Let_def pop_to_top)
  next
    assume "Type ob = TokenOQuote \<and> Type cb = TokenCQuote"
    then show ?thesis
      by (simp add: recoverAfterBodyItem_loop_step [OF un2] Let_def pop_to_top)
  qed
  have d: "advance_to cb rest ?p2 = skip_to (ob # ts @ [cb]) rest p"
    by (simp add: skip_to_def)
  from a b c d
  show "recoverAfterBodyItem_loop opn p =
          recoverAfterBodyItem_loop opn (skip_to (ob # ts @ [cb]) rest p)"
    by simp
qed

lemma skips_lits: "list_all (lit_wf x) lits \<Longrightarrow> skips opn lits"
proof (induction lits)
  case Nil
  show ?case by (rule skips_Nil)
next
  case (Cons t lits)
  then have "skips opn [t]" and "skips opn lits"
    by (simp_all add: lit_wf_def skips_lit)
  from skips_append [OF this] show ?case by simp
qed

lemma skips_label: "label_wf x l \<Longrightarrow> skips opn (label_tokens l)"
proof (cases l)
  case (Label oq lits cq)
  assume "label_wf x l"
  with Label have wf: "Type oq = TokenOQuote" "list_all (lit_wf x) lits" "Type cq = TokenCQuote"
    by simp_all
  from skips_bracket [OF skips_lits [OF wf(2), of "opn @ [Type oq]"], of cq] wf Label
  show ?thesis by simp
qed

lemma skips_labels: "list_all (label_wf x) ls \<Longrightarrow> skips opn (concat (map label_tokens ls))"
  by (rule skips_concat) (auto simp: list_all_iff skips_label)

lemma skips_item:
  "item_wf x i \<Longrightarrow> is_block i \<or> opn \<noteq> [] \<Longrightarrow> skips opn (item_tokens i)"
proof (induction i arbitrary: opn)
  case (NewlineItem t)
  then show ?case by (simp add: is_block_def skips_newline)
next
  case (BlockItem ident ls ob its cb)
  from BlockItem.prems have wf: "Type ident = TokenIdent" "list_all (label_wf x) ls"
      "Type ob = TokenOBrace" "list_all (item_wf x) its" "Type cb = TokenCBrace"
    by simp_all
  have inside: "skips (opn @ [Type ob]) (concat (map item_tokens its))"
  proof (rule skips_concat)
    fix ts
    assume "ts \<in> set (map item_tokens its)"
    then obtain j where j: "j \<in> set its" and ts: "ts = item_tokens j" by auto
    from wf(4) j have "item_wf x j" by (simp add: list_all_iff)
    from BlockItem.IH [OF j this, of "opn @ [Type ob]"] ts
    show "skips (opn @ [Type ob]) ts" by simp
  qed
  have "skips opn (ob # concat (map item_tokens its) @ [cb])"
    by (rule skips_bracket [OF inside]) (simp add: wf)
  from skips_append [OF skips_labels [OF wf(2)] this]
  have "skips opn (concat (map label_tokens ls) @ ob # concat (map item_tokens its) @ [cb])" .
  from skips_append [OF skips_ident [OF wf(1)] this]
  show ?case by simp
qed

text \<open>
  After an error in a label, recovery reads the rest of the block (further labels, the
  braces and what is between them) and stops behind the newline that ends it.
\<close>

lemma recoverAfterBodyItem_rest_of_block:
  assumes ls: "list_all (label_wf x) ls"
    and ob: "Type ob = TokenOBrace"
    and its: "list_all (item_wf x) its"
    and cb: "Type cb = TokenCBrace"
    and nl: "Type nl = TokenNewline"
    and un: "Unread p = concat (map label_tokens ls) @ ob # items_tokens its @ cb # nl # rest"
  shows "recoverAfterBodyItem p = (advance_to nl rest p)\<lparr> recovery := True \<rparr>"
proof -
  let ?line = "concat (map label_tokens ls) @ ob # items_tokens its @ [cb]"
  let ?p = "p\<lparr> recovery := True \<rparr>"
  let ?q = "skip_to ?line (nl # rest) ?p"
  have inside: "skips ([] @ [Type ob]) (concat (map item_tokens its))"
  proof (rule skips_concat)
    fix ts
    assume "ts \<in> set (map item_tokens its)"
    then obtain j where j: "j \<in> set its" and ts: "ts = item_tokens j" by auto
    from its j have "item_wf x j" by (simp add: list_all_iff)
    from skips_item [OF this, of "[] @ [Type ob]"] ts
    show "skips ([] @ [Type ob]) ts" by simp
  qed
  have "skips [] (ob # concat (map item_tokens its) @ [cb])"
    by (rule skips_bracket [OF inside]) (simp add: ob cb)
  from skips_append [OF skips_labels [OF ls] this]
  have line: "skips [] ?line" by (simp add: items_tokens_def)
  from un have un': "Unread ?p = ?line @ (nl # rest)" by simp
  from skipsD [OF line un']
  have "recoverAfterBodyItem_loop [] ?p = recoverAfterBodyItem_loop [] ?q" .
  moreover have "Unread ?q = nl # rest"
    using un' by (rule skip_to_Unread)
  from recoverAfterBodyItem_loop_step [OF this, of "[]"] nl
  have "recoverAfterBodyItem_loop [] ?q = advance_to nl rest ?q" by simp
  moreover have "advance_to nl rest ?q = (advance_to nl rest p)\<lparr> recovery := True \<rparr>"
    by (simp add: advance_to_def skip_to_def)
  ultimately show ?thesis by (simp add: recoverAfterBodyItem_def)
qed

section \<open>A template sequence in a block label\<close>

lemma finishParsingBodyBlock_labels_prefix:
  assumes "list_all (label_wf x) ls"
    and "Unread p = concat (map label_tokens ls) @ rest"
  shows "finishParsingBodyBlock_labels x ident labels labelRanges diags p =
           finishParsingBodyBlock_labels x ident (labels @ map (label_text x) ls)
             (labelRanges @ map label_range ls) diags
             (skip_to (concat (map label_tokens ls)) rest p)"
  using assms
proof (induction ls arbitrary: labels labelRanges p)
  case Nil
  then show ?case by (simp add: skip_to_def)
next
  case (Cons l ls)
  obtain oq lits cq where l: "l = Label oq lits cq" by (cases l)
  let ?rest = "concat (map label_tokens ls) @ rest"
  let ?p1 = "advance_to (last (label_tokens l)) ?rest p"
  from Cons.prems l have un: "Unread p = label_tokens l @ ?rest" and wfl: "label_wf x l"
    by simp_all
  from un l have pk: "Peek p = oq" by (simp add: Peek_Cons)
  from wfl l have oq: "Type oq = TokenOQuote" by simp
  from parseQuotedStringLiteral_label [OF wfl un]
  have pq: "parseQuotedStringLiteral x p = Inr (label_text x l, label_range l, [], ?p1)" .
  from Cons.prems have "list_all (label_wf x) ls" by simp
  from Cons.IH [OF this, of ?p1 "labels @ [label_text x l]" "labelRanges @ [label_range l]"]
  have ih: "finishParsingBodyBlock_labels x ident (labels @ [label_text x l])
          (labelRanges @ [label_range l]) diags ?p1 =
        finishParsingBodyBlock_labels x ident (labels @ map (label_text x) (l # ls))
          (labelRanges @ map label_range (l # ls)) diags
          (skip_to (concat (map label_tokens ls)) rest ?p1)"
    by simp
  have sk: "skip_to (concat (map label_tokens (l # ls))) rest p
      = skip_to (concat (map label_tokens ls)) rest ?p1"
    using l by (simp add: skip_to_def)
  from pk oq pq ih sk show ?case
    by (subst finishParsingBodyBlock_labels.simps) (simp add: Let_def)
qed

lemma template_diag_HasErrors: "HasErrors [template_diag x oq tmpl]"
  by (simp add: HasErrors_def template_diag_def Let_def)

lemma ParseBodyItem_template_label:
  assumes ident: "Type ident = TokenIdent"
    and ls1: "list_all (label_wf x) ls1"
    and oq: "Type oq = TokenOQuote"
    and lits1: "list_all (lit_wf x) lits1"
    and tmpl: "Type tmpl = TokenTemplateInterp \<or> Type tmpl = TokenTemplateControl"
    and inner: "template_balanced inner"
    and se: "Type se = TokenTemplateSeqEnd"
    and lits2: "list_all (lit_wf x) lits2"
    and cq: "Type cq = TokenCQuote"
    and ls2: "list_all (label_wf x) ls2"
    and ob: "Type ob = TokenOBrace"
    and its: "list_all (item_wf x) its"
    and cb: "Type cb = TokenCBrace"
    and nl: "Type nl = TokenNewline"
    and un: "Unread p = ident # concat (map label_tokens ls1)
               @ oq # lits1 @ tmpl # inner @ se # lits2 @ cq # concat (map label_tokens ls2)
               @ ob # items_tokens its @ cb # nl # rest"
  shows "ParseBodyItem x fuel p =
           Some (Inr (Some (NodeBlock (template_block x ident ls1 oq lits1 lits2 cq)),
                      [template_diag x oq tmpl],
                      (advance_to nl rest p)\<lparr> recovery := True \<rparr>))"
proof -
  let ?line = "concat (map label_tokens ls2) @ ob # items_tokens its @ cb # nl # rest"
  let ?bad = "oq # lits1 @ tmpl # inner @ se # lits2 @ cq # ?line"
  let ?after_ident = "concat (map label_tokens ls1) @ ?bad"
  let ?p1 = "advance_to ident ?after_ident p"
  let ?p2 = "skip_to (concat (map label_tokens ls1)) ?bad ?p1"
  let ?p3 = "(advance_to cq ?line ?p2)\<lparr> recovery := True \<rparr>"
  from un have rd: "Read p = (ident, ?p1)" by (simp add: Read_Cons)
  have pk1: "Peek ?p1 = hd ?after_ident"
    by (rule Peek_hd) simp_all
  have "Type (hd ?after_ident) = TokenOQuote"
  proof (cases ls1)
    case Nil
    with oq show ?thesis by simp
  next
    case (Cons l ls')
    with ls1 show ?thesis by (cases l) simp
  qed
  with pk1 have next_ty: "Type (Peek ?p1) = TokenOQuote" by simp
  have item: "ParseBodyItem x fuel p = finishParsingBodyBlock x fuel ident ?p1"
    using rd ident next_ty by (simp add: ParseBodyItem.simps Let_def)
  have h1: "finishParsingBodyBlock_labels x ident [] [] [] ?p1 =
      finishParsingBodyBlock_labels x ident (map (label_text x) ls1) (map label_range ls1) [] ?p2"
    using finishParsingBodyBlock_labels_prefix [OF ls1, of ?p1 ?bad ident "[]" "[]" "[]"]
    by simp
  have un2: "Unread ?p2 = ?bad"
    by (rule skip_to_Unread) simp
  then have pk2: "Peek ?p2 = oq" by (rule Peek_Cons)
  from parseQuotedStringLiteral_template [OF oq lits1 tmpl inner se lits2 cq un2]
  have pq: "parseQuotedStringLiteral x ?p2 =
      Inr (concat (map (lit_text x) (lits1 @ lits2)), RangeBetween (Range oq) (Range cq),
           [template_diag x oq tmpl], ?p3)" .
  have un3: "Unread ?p3 = ?line" by simp
  from recoverAfterBodyItem_rest_of_block [OF ls2 ob its cb nl un3]
  have rec: "recoverAfterBodyItem ?p3 = (advance_to nl rest ?p3)\<lparr> recovery := True \<rparr>" .
  have fin: "(advance_to nl rest ?p3)\<lparr> recovery := True \<rparr> = (advance_to nl rest p)\<lparr> recovery := True \<rparr>"
    by (simp add: advance_to_def skip_to_def)
  have h2: "finishParsingBodyBlock_labels x ident (map (label_text x) ls1) (map label_range ls1) [] ?p2 =
      Inr (HeaderReturn (template_block x ident ls1 oq lits1 lits2 cq) [template_diag x oq tmpl]
             ((advance_to nl rest p)\<lparr> recovery := True \<rparr>))"
    using pk2 oq pq rec fin template_diag_HasErrors [of x oq tmpl]
    by (subst finishParsingBodyBlock_labels.simps) (simp add: Let_def template_block_def)
  from item h1 h2 show ?thesis
    by (simp add: finishParsingBodyBlock.simps)
qed

text \<open>The loop from well-formed items to the terminator.\<close>

lemma ParseBody_loop_finish:
  assumes wf: "list_all (item_wf x) items"
    and e: "end \<noteq> TokenIdent" "end \<noteq> TokenNewline"
    and un: "Unread p = items_tokens items @ tail"
    and tail: "(tail = [] \<and> end = TokenEOF) \<or> (tail \<noteq> [] \<and> Type (hd tail) = end)"
    and fuel: "length (Unread p) < fuel"
  shows "\<exists>endRange p'.
           ParseBody_loop x fuel end attrs blocks diags p =
             Some (Inr (attrs, blocks @ items_blocks x items, diags, endRange, p'))
           \<and> Unread p' = tl tail \<and> recovery p' = recovery p"
proof -
  have parses: "\<And>j. j \<in> set items \<Longrightarrow> is_block j \<Longrightarrow> block_parses x j"
    using wf by (simp add: list_all_iff block_parses_wf)
  from ParseBody_loop_items [OF parses wf e un fuel, of attrs blocks diags]
  obtain fuel' where fuel': "length tail < fuel'"
    and loop: "ParseBody_loop x fuel end attrs blocks diags p =
               ParseBody_loop x fuel' end attrs (blocks @ items_blocks x items) diags
                 (skip_to (items_tokens items) tail p)"
    by auto
  from fuel' obtain f where f: "fuel' = Suc f" by (cases fuel') auto
  let ?q = "skip_to (items_tokens items) tail p"
  have q: "Unread ?q = tail" using un by (rule skip_to_Unread)
  show ?thesis
  proof (cases tail)
    case Nil
    with tail have eof: "end = TokenEOF" by simp
    from q Nil have "Unread ?q = []" by simp
    from ParseBody_loop_at_eof [OF this, of x f attrs "blocks @ items_blocks x items" diags]
      loop f eof Nil
    show ?thesis by simp
  next
    case (Cons t rest)
    with tail have t: "Type t = end" by simp
    from q Cons have "Unread ?q = t # rest" by simp
    from ParseBody_loop_at_end [OF this t, of x f attrs "blocks @ items_blocks x items" diags]
      loop f Cons
    show ?thesis by simp
  qed
qed

text \<open>
  C6, as amended. When \<open>parseQuotedStringLiteral\<close> meets a template interpolation or
  control opener, it emits one diagnostic, with the summary "Invalid string literal" and a
  detail that says template sequences are not allowed and tells to double the marker
  (\<open>$\<close> or \<open>!\<close>), and \<open>recover\<close> skips to the matching end of the sequence; the literal is
  then read on to its closing quote. The block comes back without a body, and body-item
  recovery skips the rest of its line. So parsing continues with the items after the block
  where the block ends its line: for a body of well-formed items \<open>pre\<close>, then a block
  whose label holds a template sequence with a matching end, whose other labels, braces
  and body items are well-formed and whose closing brace is followed at once by a newline,
  then well-formed items \<open>post\<close> up to the terminator, \<open>ParseBody\<close>, with more fuel than
  unread tokens, returns exactly that one diagnostic, the blocks of \<open>pre\<close>, the partial
  block, and the blocks of \<open>post\<close>.
\<close>

theorem template_sequence_in_label:
  assumes pre: "list_all (item_wf x) pre"
    and post: "list_all (item_wf x) post"
    and e: "end \<noteq> TokenIdent" "end \<noteq> TokenNewline"
    and ident: "Type ident = TokenIdent"
    and ls1: "list_all (label_wf x) ls1"
    and oq: "Type oq = TokenOQuote"
    and lits1: "list_all (lit_wf x) lits1"
    and tmpl: "Type tmpl = TokenTemplateInterp \<or> Type tmpl = TokenTemplateControl"
    and inner: "template_balanced inner"
    and se: "Type se = TokenTemplateSeqEnd"
    and lits2: "list_all (lit_wf x) lits2"
    and cq: "Type cq = TokenCQuote"
    and ls2: "list_all (label_wf x) ls2"
    and ob: "Type ob = TokenOBrace"
    and its: "list_all (item_wf x) its"
    and cb: "Type cb = TokenCBrace"
    and nl: "Type nl = TokenNewline"
    and un: "Unread p = items_tokens pre
               @ ident # concat (map label_tokens ls1)
               @ oq # lits1 @ tmpl # inner @ se # lits2 @ cq # concat (map label_tokens ls2)
               @ ob # items_tokens its @ cb # nl # items_tokens post @ tail"
    and tail: "(tail = [] \<and> end = TokenEOF) \<or> (tail \<noteq> [] \<and> Type (hd tail) = end)"
    and fuel: "length (Unread p) < fuel"
  shows "(\<exists>body p'.
            ParseBody x fuel end p = Some (Inr (body, [template_diag x oq tmpl], p'))
            \<and> Blocks body = items_blocks x pre @ [template_block x ident ls1 oq lits1 lits2 cq]
                               @ items_blocks x post
            \<and> Unread p' = tl tail)
         \<and> Summary (template_diag x oq tmpl) = ''Invalid string literal''
         \<and> Detail (template_diag x oq tmpl) =
             ''Template sequences are not allowed in this string. To include a literal ''
             @ Sprintf_q x (if Type tmpl = TokenTemplateControl then ''!'' else ''$'')
             @ '', double it (as '' @ [CHR 0x22]
             @ (if Type tmpl = TokenTemplateControl then ''!!'' else ''$$'')
             @ [CHR 0x22] @ '') to escape it.''
         \<and> (\<forall>(q :: parser) r.
               Unread q = oq # lits1 @ tmpl # inner @ se # lits2 @ cq # r \<longrightarrow>
               parseQuotedStringLiteral x q =
                 Inr (concat (map (lit_text x) (lits1 @ lits2)),
                      RangeBetween (Range oq) (Range cq),
                      [template_diag x oq tmpl],
                      (advance_to cq r q)\<lparr> recovery := True \<rparr>))
         \<and> (\<forall>(q :: parser) r.
               Unread q = inner @ se # r \<longrightarrow>
               recover TokenTemplateSeqEnd q = (advance_to se r q)\<lparr> recovery := True \<rparr>)"
proof (intro conjI allI impI)
  let ?tb = "template_block x ident ls1 oq lits1 lits2 cq"
  let ?d = "template_diag x oq tmpl"
  let ?after = "items_tokens post @ tail"
  let ?bad = "ident # concat (map label_tokens ls1)
               @ oq # lits1 @ tmpl # inner @ se # lits2 @ cq # concat (map label_tokens ls2)
               @ ob # items_tokens its @ cb # nl # ?after"
  have parses: "\<And>j. j \<in> set pre \<Longrightarrow> is_block j \<Longrightarrow> block_parses x j"
    using pre by (simp add: list_all_iff block_parses_wf)
  from un have un': "Unread p = items_tokens pre @ ?bad" by simp
  from ParseBody_loop_items [OF parses pre e un' fuel, of Map.empty "[]" "[]"]
  obtain fuel' where fuel': "length ?bad < fuel'"
    and loop1: "ParseBody_loop x fuel end Map.empty [] [] p =
               ParseBody_loop x fuel' end Map.empty (items_blocks x pre) []
                 (skip_to (items_tokens pre) ?bad p)"
    by auto
  from fuel' obtain f where f: "fuel' = Suc f" by (cases fuel') auto
  let ?q0 = "skip_to (items_tokens pre) ?bad p"
  let ?q1 = "(advance_to nl ?after ?q0)\<lparr> recovery := True \<rparr>"
  have un0: "Unread ?q0 = ?bad" using un' by (rule skip_to_Unread)
  then have pk0: "Peek ?q0 = ident" by (simp add: Peek_def)
  from un0 have un0': "Unread ?q0 = ident # concat (map label_tokens ls1)
               @ oq # lits1 @ tmpl # inner @ se # lits2 @ cq # concat (map label_tokens ls2)
               @ ob # items_tokens its @ cb # nl # ?after"
    by simp
  from ParseBodyItem_template_label
    [OF ident ls1 oq lits1 tmpl inner se lits2 cq ls2 ob its cb nl un0', of f]
  have item: "ParseBodyItem x f ?q0 = Some (Inr (Some (NodeBlock ?tb), [?d], ?q1))" .
  have loop2: "ParseBody_loop x (Suc f) end Map.empty (items_blocks x pre) [] ?q0 =
      ParseBody_loop x f end Map.empty (items_blocks x pre @ [?tb]) [?d] ?q1"
    using pk0 ident e item by (simp add: ParseBody_loop.simps ParseBody_item_def)
  have un1: "Unread ?q1 = items_tokens post @ tail" by simp
  from fuel' f have "length (Unread ?q1) < f" by simp
  from ParseBody_loop_finish [OF post e un1 tail this,
      of Map.empty "items_blocks x pre @ [?tb]" "[?d]"]
  obtain endRange p' where
    loop3: "ParseBody_loop x f end Map.empty (items_blocks x pre @ [?tb]) [?d] ?q1 =
        Some (Inr (Map.empty, (items_blocks x pre @ [?tb]) @ items_blocks x post, [?d], endRange, p'))"
    and rest: "Unread p' = tl tail"
    by auto
  from loop1 loop2 loop3 f have
    "ParseBody_loop x fuel end Map.empty [] [] p =
        Some (Inr (Map.empty, (items_blocks x pre @ [?tb]) @ items_blocks x post, [?d], endRange, p'))"
    by simp
  then have "ParseBody x fuel end p =
      Some (Inr (MkBody Map.empty ((items_blocks x pre @ [?tb]) @ items_blocks x post)
                   (RangeBetween (PrevRange p) endRange)
                   \<lparr> Filename = Filename endRange, Start = End endRange, End = End endRange \<rparr>,
                 [?d], p'))"
    by (simp add: ParseBody.simps)
  with rest show "\<exists>body p'.
            ParseBody x fuel end p = Some (Inr (body, [?d], p'))
            \<and> Blocks body = items_blocks x pre @ [?tb] @ items_blocks x post
            \<and> Unread p' = tl tail"
    by simp
next
  show "Summary (template_diag x oq tmpl) = ''Invalid string literal''"
    by (simp add: template_diag_def Let_def)
next
  show "Detail (template_diag x oq tmpl) =
             ''Template sequences are not allowed in this string. To include a literal ''
             @ Sprintf_q x (if Type tmpl = TokenTemplateControl then ''!'' else ''$'')
             @ '', double it (as '' @ [CHR 0x22]
             @ (if Type tmpl = TokenTemplateControl then ''!!'' else ''$$'')
             @ [CHR 0x22] @ '') to escape it.''"
    by (simp add: template_diag_def Let_def)
next
  fix q :: parser and r
  assume "Unread q = oq # lits1 @ tmpl # inner @ se # lits2 @ cq # r"
  from parseQuotedStringLiteral_template [OF oq lits1 tmpl inner se lits2 cq this]
  show "parseQuotedStringLiteral x q =
          Inr (concat (map (lit_text x) (lits1 @ lits2)),
               RangeBetween (Range oq) (Range cq),
               [template_diag x oq tmpl],
               (advance_to cq r q)\<lparr> recovery := True \<rparr>)" .
next
  fix q :: parser and r
  assume "Unread q = inner @ se # r"
  from recover_template_balanced [OF inner se this]
  show "recover TokenTemplateSeqEnd q = (advance_to se r q)\<lparr> recovery := True \<rparr>" .
qed

theorem template_sequence_in_label_witness:
  "template_balanced [tk TokenIdent ''y'' 6]
   \<and> list_all (lit_wf sample_extern) [tk TokenQuotedLit ''x'' 3]
   \<and> list_all (item_wf sample_extern) template_sample_post
   \<and> length (Unread template_sample) < 14
   \<and> (\<exists>body p'.
        ParseBody sample_extern 14 TokenEOF template_sample =
          Some (Inr (body,
                     [template_diag sample_extern (tk TokenOQuote [CHR 0x22] 2)
                        (tk TokenTemplateInterp ''${'' 4)],
                     p'))
        \<and> map BlockType (Blocks body) = [''a'', ''b'']
        \<and> map Labels (Blocks body) = [[''x''], []]
        \<and> map (\<lambda>b. Body b = None) (Blocks body) = [True, False]
        \<and> Unread p' = [])
   \<and> Summary (template_diag sample_extern (tk TokenOQuote [CHR 0x22] 2)
                 (tk TokenTemplateInterp ''${'' 4)) = ''Invalid string literal''
   \<and> Detail (template_diag sample_extern (tk TokenOQuote [CHR 0x22] 2)
                (tk TokenTemplateInterp ''${'' 4)) =
       ''Template sequences are not allowed in this string. To include a literal ''
       @ [CHR 0x22] @ ''$'' @ [CHR 0x22] @ '', double it (as '' @ [CHR 0x22] @ ''$$''
       @ [CHR 0x22] @ '') to escape it.''"
proof -
  let ?oq = "tk TokenOQuote [CHR 0x22] 2"
  let ?tmpl = "tk TokenTemplateInterp ''${'' 4"
  have bal: "template_balanced [tk TokenIdent ''y'' 6]"
    by (simp add: template_balanced_def tk_def)
  have lits1: "list_all (lit_wf sample_extern) [tk TokenQuotedLit ''x'' 3]"
    by (simp add: lit_wf_def sample_eval decodeStringLit_def decodeStringLit_run_def Let_def)
  have post: "list_all (item_wf sample_extern) template_sample_post"
    by (simp add: template_sample_post_def tk_def)
  have un: "Unread template_sample = items_tokens []
               @ tk TokenIdent ''a'' 0 # concat (map label_tokens [])
               @ ?oq # [tk TokenQuotedLit ''x'' 3] @ ?tmpl # [tk TokenIdent ''y'' 6]
               @ tk TokenTemplateSeqEnd ''}'' 7 # [] @ tk TokenCQuote [CHR 0x22] 8
               # concat (map label_tokens [])
               @ tk TokenOBrace ''{'' 10 # items_tokens [] @ tk TokenCBrace ''}'' 11
               # tk TokenNewline [CHR 0x0A] 12 # items_tokens template_sample_post @ []"
    by (simp add: template_sample_def template_sample_post_def parser_of_def items_tokens_def)
  have fuel: "length (Unread template_sample) < 14"
    by (simp add: template_sample_def parser_of_def)
  have tail: "([] = [] \<and> TokenEOF = TokenEOF) \<or> ([] \<noteq> [] \<and> Type (hd []) = TokenEOF)"
    by simp
  note inst = template_sequence_in_label
    [where x = sample_extern and pre = "[]" and post = template_sample_post and ?end = TokenEOF
       and ident = "tk TokenIdent ''a'' 0" and ?ls1.0 = "[]" and oq = ?oq
       and ?lits1.0 = "[tk TokenQuotedLit ''x'' 3]" and tmpl = ?tmpl
       and inner = "[tk TokenIdent ''y'' 6]" and se = "tk TokenTemplateSeqEnd ''}'' 7"
       and ?lits2.0 = "[]" and cq = "tk TokenCQuote [CHR 0x22] 8" and ?ls2.0 = "[]"
       and ob = "tk TokenOBrace ''{'' 10" and its = "[]" and cb = "tk TokenCBrace ''}'' 11"
       and nl = "tk TokenNewline [CHR 0x0A] 12" and p = template_sample and tail = "[]"
       and fuel = 14,
     OF _ post _ _ _ _ _ lits1 _ bal _ _ _ _ _ _ _ _ un tail fuel]
  have inst': "(\<exists>body p'.
        ParseBody sample_extern 14 TokenEOF template_sample =
          Some (Inr (body, [template_diag sample_extern ?oq ?tmpl], p'))
        \<and> Blocks body = items_blocks sample_extern []
             @ [template_block sample_extern (tk TokenIdent ''a'' 0) [] ?oq
                  [tk TokenQuotedLit ''x'' 3] [] (tk TokenCQuote [CHR 0x22] 8)]
             @ items_blocks sample_extern template_sample_post
        \<and> Unread p' = tl [])
     \<and> Summary (template_diag sample_extern ?oq ?tmpl) = ''Invalid string literal''
     \<and> Detail (template_diag sample_extern ?oq ?tmpl) =
         ''Template sequences are not allowed in this string. To include a literal ''
         @ Sprintf_q sample_extern (if Type ?tmpl = TokenTemplateControl then ''!'' else ''$'')
         @ '', double it (as '' @ [CHR 0x22]
         @ (if Type ?tmpl = TokenTemplateControl then ''!!'' else ''$$'')
         @ [CHR 0x22] @ '') to escape it.''"
    using inst by (simp add: tk_def template_sample_post_def)
  then obtain body p' where
    res: "ParseBody sample_extern 14 TokenEOF template_sample =
          Some (Inr (body, [template_diag sample_extern ?oq ?tmpl], p'))"
    and bl: "Blocks body = items_blocks sample_extern []
             @ [template_block sample_extern (tk TokenIdent ''a'' 0) [] ?oq
                  [tk TokenQuotedLit ''x'' 3] [] (tk TokenCQuote [CHR 0x22] 8)]
             @ items_blocks sample_extern template_sample_post"
    and rest: "Unread p' = tl []"
    by blast
  from bl have shape: "map BlockType (Blocks body) = [''a'', ''b'']"
      "map Labels (Blocks body) = [[''x''], []]"
      "map (\<lambda>b. Body b = None) (Blocks body) = [True, False]"
    by (simp_all add: items_blocks_def template_block_def template_sample_post_def
          lit_text_def sample_eval decodeStringLit_def decodeStringLit_run_def Let_def)
  from inst' have summary: "Summary (template_diag sample_extern ?oq ?tmpl) = ''Invalid string literal''"
    and detail: "Detail (template_diag sample_extern ?oq ?tmpl) =
       ''Template sequences are not allowed in this string. To include a literal ''
       @ [CHR 0x22] @ ''$'' @ [CHR 0x22] @ '', double it (as '' @ [CHR 0x22] @ ''$$''
       @ [CHR 0x22] @ '') to escape it.''"
    by (simp_all add: tk_def sample_extern_def)
  from bal lits1 post fuel res shape rest summary detail show ?thesis
    by auto
qed

text \<open>
  The claim as stated fails where the block does not end its line, since body-item
  recovery reads on to the next newline outside brackets. In \<open>a "x${y}" {} b {}\<close>, a
  newline, \<open>c {}\<close>, the block \<open>b\<close> is skipped: the blocks returned are \<open>a\<close> and \<open>c\<close>. In
  \<open>o { a "x${y}" {} }\<close>, a newline, \<open>b {}\<close>, recovery reads the closing brace of \<open>o\<close>: the
  top-level item \<open>b\<close> is returned as a block of the body of \<open>o\<close>, which ends with the
  input. In both there is the one diagnostic and no other.
\<close>

theorem template_sequence_counterexample:
  "ParseBody sample_extern 17 TokenEOF template_same_line =
     Some (Inr (MkBody Map.empty
                  [MkBlock ''a'' [''x''] None (rng 0 1) [rng 2 9] (rng 0 1) (rng 0 1),
                   MkBlock ''c'' [] (Some (MkBody Map.empty [] (rng 20 22) (rng 22 22)))
                     (rng 18 19) [] (rng 20 21) (rng 21 22)]
                  (rng 0 22) (rng 22 22),
                [template_diag sample_extern (tk TokenOQuote [CHR 0x22] 2)
                   (tk TokenTemplateInterp ''${'' 4)],
                \<lparr> Unread = [], LastRead = Some (rng 22 22), EOFRange = rng 22 22,
                  recovery = True \<rparr>))
   \<and> ParseBody sample_extern 17 TokenEOF template_nested =
     Some (Inr (MkBody Map.empty
                  [MkBlock ''o'' []
                     (Some (MkBody Map.empty
                              [MkBlock ''a'' [''x''] None (rng 4 5) [rng 6 13] (rng 4 5) (rng 4 5),
                               MkBlock ''b'' [] (Some (MkBody Map.empty [] (rng 21 23) (rng 23 23)))
                                 (rng 19 20) [] (rng 21 22) (rng 22 23)]
                              (rng 2 23) (rng 23 23)))
                     (rng 0 1) [] (rng 2 3) (rng 23 23)]
                  (rng 0 23) (rng 23 23),
                [template_diag sample_extern (tk TokenOQuote [CHR 0x22] 6)
                   (tk TokenTemplateInterp ''${'' 8)],
                \<lparr> Unread = [], LastRead = Some (rng 23 23), EOFRange = rng 23 23,
                  recovery = True \<rparr>))"
proof -
  have same_line: "ParseBody sample_extern 17 TokenEOF template_same_line =
     Some (Inr (MkBody Map.empty
                  [MkBlock ''a'' [''x''] None (rng 0 1) [rng 2 9] (rng 0 1) (rng 0 1),
                   MkBlock ''c'' [] (Some (MkBody Map.empty [] (rng 20 22) (rng 22 22)))
                     (rng 18 19) [] (rng 20 21) (rng 21 22)]
                  (rng 0 22) (rng 22 22),
                [template_diag sample_extern (tk TokenOQuote [CHR 0x22] 2)
                   (tk TokenTemplateInterp ''${'' 4)],
                \<lparr> Unread = [], LastRead = Some (rng 22 22), EOFRange = rng 22 22,
                  recovery = True \<rparr>))"
    by (simp add: template_same_line_def parser_eval sample_eval numeral_nat template_diag_def
          rng_def RangeBetween_def)
  have nested: "ParseBody sample_extern 17 TokenEOF template_nested =
     Some (Inr (MkBody Map.empty
                  [MkBlock ''o'' []
                     (Some (MkBody Map.empty
                              [MkBlock ''a'' [''x''] None (rng 4 5) [rng 6 13] (rng 4 5) (rng 4 5),
                               MkBlock ''b'' [] (Some (MkBody Map.empty [] (rng 21 23) (rng 23 23)))
                                 (rng 19 20) [] (rng 21 22) (rng 22 23)]
                              (rng 2 23) (rng 23 23)))
                     (rng 0 1) [] (rng 2 3) (rng 23 23)]
                  (rng 0 23) (rng 23 23),
                [template_diag sample_extern (tk TokenOQuote [CHR 0x22] 6)
                   (tk TokenTemplateInterp ''${'' 8)],
                \<lparr> Unread = [], LastRead = Some (rng 23 23), EOFRange = rng 23 23,
                  recovery = True \<rparr>))"
    by (simp add: template_nested_def parser_eval sample_eval numeral_nat template_diag_def
          rng_def RangeBetween_def bad_token_diags_def)
  from same_line nested show ?thesis by (rule conjI)
qed

end
